theory Spec2Isabelle
  imports Complex_Main "HOL-Library.Sublist"
begin

text \<open>
  A model of nano.py, the interpreter of the Nano language, and proofs about it.  The
  model follows the source function by function: \<open>asteval\<close> with its visitor
  \<open>SafeEval\<close>, \<open>interpret_line\<close>, \<open>raiseException\<close> and \<open>run_minipy\<close>.  What the source
  takes from Python (the parser, the arithmetic of floats, the conversions of
  \<open>input\<close>) is a parameter of the model, so the theorems hold for every such runtime.
\<close>

section \<open>Python string primitives used by nano.py\<close>

text \<open>
  A Python \<open>str\<close> is modelled as a \<open>string\<close>; one \<open>char\<close> stands for one code point
  below 256.  \<open>isspace\<close> is \<open>str.isspace\<close> on one such code point: it decides what
  \<open>str.strip()\<close> and \<open>str.split()\<close> remove.
\<close>

definition isspace :: "char \<Rightarrow> bool" where
  "isspace c =
     (let n = (of_char c :: nat)
      in (9 \<le> n \<and> n \<le> 13) \<or> (28 \<le> n \<and> n \<le> 32) \<or> n = 133 \<or> n = 160)"

definition strip :: "string \<Rightarrow> string" where
  "strip s = rev (dropWhile isspace (rev (dropWhile isspace s)))"

text \<open>\<open>s.strip(chars)\<close>: removes leading and trailing characters that occur in \<open>chars\<close>.\<close>

definition strip_chars :: "string \<Rightarrow> string \<Rightarrow> string" where
  "strip_chars s chars =
     rev (dropWhile (\<lambda>c. c \<in> set chars) (rev (dropWhile (\<lambda>c. c \<in> set chars) s)))"

text \<open>
  \<open>s.split(None, k)\<close>: at most \<open>k\<close> splits at runs of whitespace; what is left after the
  \<open>k\<close>-th split loses its leading whitespace only and is no element when it is empty.
\<close>

fun split_max :: "nat \<Rightarrow> string \<Rightarrow> string list" where
  "split_max 0 s = (let r = dropWhile isspace s in if r = [] then [] else [r])"
| "split_max (Suc k) s =
     (let r = dropWhile isspace s
      in if r = [] then []
         else takeWhile (\<lambda>c. \<not> isspace c) r # split_max k (dropWhile (\<lambda>c. \<not> isspace c) r))"

text \<open>\<open>s.split()\<close>: no bound on the number of splits (\<open>length s\<close> splits are never reached).\<close>

definition split_ws :: "string \<Rightarrow> string list" where
  "split_ws s = split_max (length s) s"

definition startswith :: "string \<Rightarrow> string \<Rightarrow> bool" where
  "startswith s p = (take (length p) s = p)"

definition endswith :: "string \<Rightarrow> string \<Rightarrow> bool" where
  "endswith s p = (length p \<le> length s \<and> drop (length s - length p) s = p)"

text \<open>\<open>s.find(sub)\<close>: the least index where \<open>sub\<close> occurs, \<open>None\<close> for Python's \<open>-1\<close>.\<close>

fun str_find :: "string \<Rightarrow> string \<Rightarrow> nat option" where
  "str_find [] sub = (if sub = [] then Some 0 else None)"
| "str_find (c # cs) sub =
     (if startswith (c # cs) sub then Some 0 else map_option Suc (str_find cs sub))"

text \<open>\<open>str(n)\<close> for an integer: decimal digits, a minus sign for a negative number.\<close>

definition digit_char :: "nat \<Rightarrow> char" where
  "digit_char d = ''0123456789'' ! d"

fun str_of_nat :: "nat \<Rightarrow> string" where
  "str_of_nat n =
     (if n < 10 then [digit_char n] else str_of_nat (n div 10) @ [digit_char (n mod 10)])"

declare str_of_nat.simps [simp del]

definition str_of_int :: "int \<Rightarrow> string" where
  "str_of_int i = (if i < 0 then CHR ''-'' # str_of_nat (nat (- i)) else str_of_nat (nat i))"

text \<open>
  \<open>s.splitlines()\<close>: the line boundaries among the code points below 256 are
  LF, CR, CR LF, VT, FF, FS, GS, RS and NEL; a final boundary opens no empty last line.
\<close>

definition is_linebreak :: "char \<Rightarrow> bool" where
  "is_linebreak c =
     (let n = (of_char c :: nat)
      in (10 \<le> n \<and> n \<le> 13) \<or> (28 \<le> n \<and> n \<le> 30) \<or> n = 133)"

fun splitlines_from :: "string \<Rightarrow> string \<Rightarrow> string list" where
  "splitlines_from cur [] = (if cur = [] then [] else [rev cur])"
| "splitlines_from cur [c] = (if is_linebreak c then [rev cur] else [rev (c # cur)])"
| "splitlines_from cur (c # d # cs) =
     (if (of_char c :: nat) = 13 \<and> (of_char d :: nat) = 10
        then rev cur # splitlines_from [] cs
      else if is_linebreak c then rev cur # splitlines_from [] (d # cs)
      else splitlines_from (c # cur) (d # cs))"

definition splitlines :: "string \<Rightarrow> string list" where
  "splitlines s = splitlines_from [] s"

section \<open>Values, exceptions and syntax trees\<close>

text \<open>
  The values an expression can have: \<open>int\<close> (unbounded), \<open>bool\<close>, \<open>str\<close> and \<open>None\<close>
  are modelled; every other value of the Python runtime (\<open>float\<close>, and the \<open>complex\<close>,
  \<open>bytes\<close> and \<open>Ellipsis\<close> literals) is an \<open>ExtV\<close> of the type parameter \<open>'x\<close>, and
  the operations on it are those of the runtime, see \<open>host\<close> below.
\<close>

datatype 'x val = IntV int | BoolV bool | StrV string | NoneV | ExtV 'x

text \<open>
  The exceptions that occur.  \<open>UnsupportedOperator\<close> and \<open>UnsupportedExpression\<close> are the
  two \<open>ValueError\<close>s that \<open>SafeEval\<close> raises itself (\<open>unsupported\<close> and
  \<open>generic_visit\<close>, the latter with the name of the node type); \<open>ValueError e\<close> is
  the \<open>ValueError(str(e))\<close> that \<open>asteval\<close> raises in place of \<open>e\<close>.
\<close>

datatype exc =
    SyntaxError
  | NameError string
  | UnsupportedOperator
  | UnsupportedExpression string
  | TypeError
  | ZeroDivisionError
  | OverflowError
  | IndexError
  | MemoryError
  | RecursionError
  | EOFError
  | ValueError exc

text \<open>
  The nodes of Python's \<open>ast\<close> that \<open>SafeEval\<close> has a method for, with the operator
  classes its tables name; \<open>OtherNode\<close> (with the name of its class) is any other node
  and \<open>OtherBinOp\<close>, \<open>OtherCmpOp\<close>, \<open>OtherUnaryOp\<close> any other operator.  A \<open>Compare\<close>
  node carries the lists \<open>ops\<close> and \<open>comparators\<close> as in Python (\<open>a < b < c\<close> is one node).
\<close>

datatype binop = Add | Sub | Mult | Div | Mod | OtherBinOp

datatype cmpop = Gt | Lt | Eq | NotEq | GtE | LtE | OtherCmpOp

datatype unaryop = UAdd | USub | OtherUnaryOp

datatype 'x expr =
    BinOp "'x expr" binop "'x expr"
  | Compare "'x expr" "cmpop list" "'x expr list"
  | Num "'x val"
  | Constant "'x val"
  | Name string
  | UnaryOp unaryop "'x expr"
  | OtherNode string

section \<open>The Python runtime\<close>

text \<open>
  What nano.py takes from Python and its libraries and does not define itself:
  \<^item> \<open>ast_parse\<close>: \<open>ast.parse(expr, mode='eval')\<close>, giving the body of the
    \<open>Expression\<close> node or the exception raised;
  \<^item> the operators on values that are not modelled here: any operation with an \<open>ExtV\<close>
    operand, true division of two integers (a \<open>float\<close> or \<open>OverflowError\<close>),
    \<open>str * int\<close>, and \<open>str % value\<close>;
  \<^item> \<open>ext_truth\<close> and \<open>ext_str\<close>: \<open>bool(v)\<close> and \<open>str(v)\<close> on an \<open>ExtV\<close>;
  \<^item> \<open>int_of_str\<close>, \<open>float_of_str\<close>: \<open>int(s)\<close> and \<open>float(s)\<close>, \<open>None\<close> for their
    \<open>ValueError\<close>;
  \<^item> \<open>RED\<close>, \<open>GREEN\<close>, \<open>RESET\<close>: the escape sequences of \<open>colorama.Fore\<close>.
  Every definition below takes the runtime as its first argument \<open>H\<close>.
\<close>

record 'x host =
  ast_parse :: "string \<Rightarrow> exc + 'x expr"
  ext_binop :: "binop \<Rightarrow> 'x val \<Rightarrow> 'x val \<Rightarrow> exc + 'x val"
  int_truediv :: "int \<Rightarrow> int \<Rightarrow> exc + 'x"
  str_repeat :: "string \<Rightarrow> int \<Rightarrow> exc + string"
  str_format :: "string \<Rightarrow> 'x val \<Rightarrow> exc + string"
  ext_compare :: "cmpop \<Rightarrow> 'x val \<Rightarrow> 'x val \<Rightarrow> exc + 'x val"
  ext_unary :: "unaryop \<Rightarrow> 'x \<Rightarrow> exc + 'x val"
  ext_truth :: "'x \<Rightarrow> bool"
  ext_str :: "'x \<Rightarrow> string"
  int_of_str :: "string \<Rightarrow> int option"
  float_of_str :: "string \<Rightarrow> 'x option"
  RED :: string
  GREEN :: string
  RESET :: string

section \<open>Operators on values\<close>

text \<open>\<open>bool\<close> is a subclass of \<open>int\<close>: in arithmetic and comparisons it counts as 0 or 1.\<close>

fun int_val :: "'x val \<Rightarrow> int option" where
  "int_val (IntV i) = Some i"
| "int_val (BoolV b) = Some (if b then 1 else 0)"
| "int_val _ = None"

fun is_ext :: "'x val \<Rightarrow> bool" where
  "is_ext (ExtV _) = True"
| "is_ext _ = False"

text \<open>Order of \<open>str\<close>: lexicographic by code point.\<close>

fun str_less :: "string \<Rightarrow> string \<Rightarrow> bool" where
  "str_less [] [] = False"
| "str_less [] (y # ys) = True"
| "str_less (x # xs) [] = False"
| "str_less (x # xs) (y # ys) =
     (if (of_char x :: nat) < of_char y then True
      else if (of_char y :: nat) < of_char x then False
      else str_less xs ys)"

text \<open>\<open>left + right\<close>\<close>

definition py_add :: "'x host \<Rightarrow> 'x val \<Rightarrow> 'x val \<Rightarrow> exc + 'x val" where
  "py_add H l r =
     (if is_ext l \<or> is_ext r then ext_binop H Add l r
      else case (int_val l, int_val r) of
             (Some a, Some b) \<Rightarrow> Inr (IntV (a + b))
           | _ \<Rightarrow> (case (l, r) of
                     (StrV a, StrV b) \<Rightarrow> Inr (StrV (a @ b))
                   | _ \<Rightarrow> Inl TypeError))"

text \<open>\<open>left - right\<close>\<close>

definition py_sub :: "'x host \<Rightarrow> 'x val \<Rightarrow> 'x val \<Rightarrow> exc + 'x val" where
  "py_sub H l r =
     (if is_ext l \<or> is_ext r then ext_binop H Sub l r
      else case (int_val l, int_val r) of
             (Some a, Some b) \<Rightarrow> Inr (IntV (a - b))
           | _ \<Rightarrow> Inl TypeError)"

text \<open>\<open>left * right\<close>\<close>

definition py_mult :: "'x host \<Rightarrow> 'x val \<Rightarrow> 'x val \<Rightarrow> exc + 'x val" where
  "py_mult H l r =
     (if is_ext l \<or> is_ext r then ext_binop H Mult l r
      else case (int_val l, int_val r) of
             (Some a, Some b) \<Rightarrow> Inr (IntV (a * b))
           | (Some a, None) \<Rightarrow>
               (case r of StrV s \<Rightarrow> map_sum id StrV (str_repeat H s a) | _ \<Rightarrow> Inl TypeError)
           | (None, Some b) \<Rightarrow>
               (case l of StrV s \<Rightarrow> map_sum id StrV (str_repeat H s b) | _ \<Rightarrow> Inl TypeError)
           | _ \<Rightarrow> Inl TypeError)"

text \<open>\<open>left / right\<close>: true division, which raises on a zero divisor.\<close>

definition py_div :: "'x host \<Rightarrow> 'x val \<Rightarrow> 'x val \<Rightarrow> exc + 'x val" where
  "py_div H l r =
     (if is_ext l \<or> is_ext r then ext_binop H Div l r
      else case (int_val l, int_val r) of
             (Some a, Some b) \<Rightarrow>
               (if b = 0 then Inl ZeroDivisionError else map_sum id ExtV (int_truediv H a b))
           | _ \<Rightarrow> Inl TypeError)"

text \<open>
  \<open>left % right\<close>: on integers the remainder has the sign of the divisor, as \<open>mod\<close> on
  \<open>int\<close> has; on a \<open>str\<close> it is formatting.
\<close>

definition py_mod :: "'x host \<Rightarrow> 'x val \<Rightarrow> 'x val \<Rightarrow> exc + 'x val" where
  "py_mod H l r =
     (if is_ext l \<or> is_ext r then ext_binop H Mod l r
      else case (int_val l, int_val r) of
             (Some a, Some b) \<Rightarrow>
               (if b = 0 then Inl ZeroDivisionError else Inr (IntV (a mod b)))
           | _ \<Rightarrow> (case l of
                     StrV s \<Rightarrow> map_sum id StrV (str_format H s r)
                   | _ \<Rightarrow> Inl TypeError))"

text \<open>\<open>left == right\<close> on values that are not \<open>ExtV\<close>.\<close>

definition py_eq :: "'x val \<Rightarrow> 'x val \<Rightarrow> bool" where
  "py_eq l r =
     (case (int_val l, int_val r) of
        (Some a, Some b) \<Rightarrow> a = b
      | _ \<Rightarrow> (case (l, r) of
                (StrV a, StrV b) \<Rightarrow> a = b
              | (NoneV, NoneV) \<Rightarrow> True
              | _ \<Rightarrow> False))"

text \<open>
  The four order comparisons, given as the order on integers and the one on strings:
  integers with integers, strings with strings, \<open>TypeError\<close> for anything else.
\<close>

definition py_order ::
  "(int \<Rightarrow> int \<Rightarrow> bool) \<Rightarrow> (string \<Rightarrow> string \<Rightarrow> bool) \<Rightarrow> 'x val \<Rightarrow> 'x val \<Rightarrow> exc + 'x val"
where
  "py_order oi os l r =
     (case (int_val l, int_val r) of
        (Some a, Some b) \<Rightarrow> Inr (BoolV (oi a b))
      | _ \<Rightarrow> (case (l, r) of
                (StrV a, StrV b) \<Rightarrow> Inr (BoolV (os a b))
              | _ \<Rightarrow> Inl TypeError))"

text \<open>\<open>+operand\<close> and \<open>-operand\<close>\<close>

definition py_pos :: "'x host \<Rightarrow> 'x val \<Rightarrow> exc + 'x val" where
  "py_pos H v =
     (case v of
        ExtV x \<Rightarrow> ext_unary H UAdd x
      | _ \<Rightarrow> (case int_val v of Some a \<Rightarrow> Inr (IntV a) | None \<Rightarrow> Inl TypeError))"

definition py_neg :: "'x host \<Rightarrow> 'x val \<Rightarrow> exc + 'x val" where
  "py_neg H v =
     (case v of
        ExtV x \<Rightarrow> ext_unary H USub x
      | _ \<Rightarrow> (case int_val v of Some a \<Rightarrow> Inr (IntV (- a)) | None \<Rightarrow> Inl TypeError))"

text \<open>Truth value of a value, as \<open>while v\<close> and \<open>if v\<close> take it.\<close>

fun truthy :: "'x host \<Rightarrow> 'x val \<Rightarrow> bool" where
  "truthy H (IntV i) = (i \<noteq> 0)"
| "truthy H (BoolV b) = b"
| "truthy H (StrV s) = (s \<noteq> [])"
| "truthy H NoneV = False"
| "truthy H (ExtV x) = ext_truth H x"

text \<open>
  \<open>str(v)\<close>, the text that \<open>print(v)\<close> writes.  An integer is written with all its
  digits (the limit that recent interpreters put on the number of digits is not
  modelled).
\<close>

fun py_str :: "'x host \<Rightarrow> 'x val \<Rightarrow> string" where
  "py_str H (IntV i) = str_of_int i"
| "py_str H (BoolV b) = (if b then ''True'' else ''False'')"
| "py_str H (StrV s) = s"
| "py_str H NoneV = ''None''"
| "py_str H (ExtV x) = ext_str H x"

section \<open>The expression evaluator: \<open>asteval\<close> and its visitor \<open>SafeEval\<close>\<close>

text \<open>
  \<open>variables\<close> is the dictionary of the run, which the visitor holds by reference.  The
  evaluator is written in state-passing style: every method takes the dictionary and
  returns it with its result, so that what the evaluator does to it is a statement
  about the model and not a consequence of its type.
\<close>

type_synonym 'x env = "string \<Rightarrow> 'x val option"

text \<open>The table \<open>ops\<close> of \<open>visit_BinOp\<close>, with \<open>unsupported\<close> as the default.\<close>

fun binop_apply :: "'x host \<Rightarrow> binop \<Rightarrow> 'x val \<Rightarrow> 'x val \<Rightarrow> exc + 'x val" where
  "binop_apply H Add left right = py_add H left right"
| "binop_apply H Sub left right = py_sub H left right"
| "binop_apply H Mult left right = py_mult H left right"
| "binop_apply H Div left right = py_div H left right"
| "binop_apply H Mod left right = py_mod H left right"
| "binop_apply H OtherBinOp left right = Inl UnsupportedOperator"

text \<open>The table \<open>ops\<close> of \<open>visit_Compare\<close>.\<close>

fun compare_apply :: "'x host \<Rightarrow> cmpop \<Rightarrow> 'x val \<Rightarrow> 'x val \<Rightarrow> exc + 'x val" where
  "compare_apply H OtherCmpOp left right = Inl UnsupportedOperator"
| "compare_apply H op left right =
     (if is_ext left \<or> is_ext right then ext_compare H op left right
      else case op of
             Gt \<Rightarrow> py_order (\<lambda>a b. b < a) (\<lambda>a b. str_less b a) left right
           | Lt \<Rightarrow> py_order (\<lambda>a b. a < b) str_less left right
           | Eq \<Rightarrow> Inr (BoolV (py_eq left right))
           | NotEq \<Rightarrow> Inr (BoolV (\<not> py_eq left right))
           | GtE \<Rightarrow> py_order (\<lambda>a b. b \<le> a) (\<lambda>a b. \<not> str_less a b) left right
           | LtE \<Rightarrow> py_order (\<lambda>a b. a \<le> b) (\<lambda>a b. \<not> str_less b a) left right
           | OtherCmpOp \<Rightarrow> Inl UnsupportedOperator)"

text \<open>The table \<open>ops\<close> of \<open>visit_UnaryOp\<close>.\<close>

fun unaryop_apply :: "'x host \<Rightarrow> unaryop \<Rightarrow> 'x val \<Rightarrow> exc + 'x val" where
  "unaryop_apply H UAdd operand = py_pos H operand"
| "unaryop_apply H USub operand = py_neg H operand"
| "unaryop_apply H OtherUnaryOp operand = Inl UnsupportedOperator"

text \<open>
  \<open>SafeEval.visit\<close>, one equation per method: \<open>visit_BinOp\<close>, \<open>visit_Compare\<close> (which
  reads \<open>comparators[0]\<close> and \<open>ops[0]\<close> only), \<open>visit_Num\<close>, \<open>visit_Constant\<close>,
  \<open>visit_Name\<close>, \<open>visit_UnaryOp\<close> and \<open>generic_visit\<close>.  Operands are visited left to
  right and the first exception ends the evaluation.
\<close>

fun visit :: "'x host \<Rightarrow> 'x expr \<Rightarrow> 'x env \<Rightarrow> (exc + 'x val) \<times> 'x env" where
  "visit H (BinOp l op r) variables =
     (case visit H l variables of
        (Inl e, variables1) \<Rightarrow> (Inl e, variables1)
      | (Inr left, variables1) \<Rightarrow>
          (case visit H r variables1 of
             (Inl e, variables2) \<Rightarrow> (Inl e, variables2)
           | (Inr right, variables2) \<Rightarrow> (binop_apply H op left right, variables2)))"
| "visit H (Compare l ops comparators) variables =
     (case visit H l variables of
        (Inl e, variables1) \<Rightarrow> (Inl e, variables1)
      | (Inr left, variables1) \<Rightarrow>
          (case comparators of
             [] \<Rightarrow> (Inl IndexError, variables1)
           | c # _ \<Rightarrow>
               (case visit H c variables1 of
                  (Inl e, variables2) \<Rightarrow> (Inl e, variables2)
                | (Inr right, variables2) \<Rightarrow>
                    (case ops of
                       [] \<Rightarrow> (Inl IndexError, variables2)
                     | op # _ \<Rightarrow> (compare_apply H op left right, variables2)))))"
| "visit H (Num n) variables = (Inr n, variables)"
| "visit H (Constant v) variables = (Inr v, variables)"
| "visit H (Name ident) variables =
     (case variables ident of
        Some v \<Rightarrow> (Inr v, variables)
      | None \<Rightarrow> (Inl (NameError ident), variables))"
| "visit H (UnaryOp op e) variables =
     (case visit H e variables of
        (Inl e, variables1) \<Rightarrow> (Inl e, variables1)
      | (Inr operand, variables1) \<Rightarrow> (unaryop_apply H op operand, variables1))"
| "visit H (OtherNode cls) variables = (Inl (UnsupportedExpression cls), variables)"

text \<open>
  \<open>asteval\<close>: parse, visit the body of the \<open>Expression\<close> node (\<open>visit_Expression\<close>), and
  raise \<open>ValueError(str(e))\<close> for any exception \<open>e\<close> of either step.
\<close>

definition asteval :: "'x host \<Rightarrow> string \<Rightarrow> 'x env \<Rightarrow> (exc + 'x val) \<times> 'x env" where
  "asteval H expr variables =
     (case ast_parse H expr of
        Inl e \<Rightarrow> (Inl (ValueError e), variables)
      | Inr tree \<Rightarrow>
          (case visit H tree variables of
             (Inl e, variables1) \<Rightarrow> (Inl (ValueError e), variables1)
           | (Inr v, variables1) \<Rightarrow> (Inr v, variables1)))"

section \<open>The interpreter state\<close>

text \<open>
  The module's global variables, the dictionary \<open>variables\<close> of the run, and the two
  streams: \<open>stdout\<close> is the text written so far, \<open>stdin\<close> the lines not yet read.
\<close>

record 'x state =
  variables :: "'x env"
  in_block :: bool
  block_type :: "string option"
  block_lines :: "string list"
  current_condition :: "'x val"
  executed_a_branch :: bool
  while_condition :: string
  exceptioncount :: nat
  raisedexceptions :: "string list"
  stdout :: string
  stdin :: "string list"

definition exceptionslist :: "string list" where
  "exceptionslist =
     [''Unknown command'', ''Invalid syntax'', ''Illegal statement'',
      ''Missing opening brace '' @ [CHR 0x27, CHR ''{'', CHR 0x27]]"

definition raiseException :: "string \<Rightarrow> string \<Rightarrow> nat \<Rightarrow> 'x state \<Rightarrow> 'x state" where
  "raiseException type line linenum s =
     s\<lparr>exceptioncount := exceptioncount s + 1,
       raisedexceptions :=
         raisedexceptions s @ [type @ '': Line '' @ str_of_nat (linenum + 1) @ '': '' @ line]\<rparr>"

section \<open>Statements: \<open>interpret_line\<close> outside a block\<close>

text \<open>The branch of keyword \<open>let\<close>.\<close>

definition stmt_let :: "'x host \<Rightarrow> string \<Rightarrow> nat \<Rightarrow> 'x state \<Rightarrow> 'x state" where
  "stmt_let H line linenum s =
     (let parts = split_max 2 line
      in if length parts < 3 \<or> \<not> startswith (parts ! 2) ''=''
         then raiseException (exceptionslist ! 1) line linenum s
         else let name = parts ! 1;
                  value_expr = strip (drop 1 (parts ! 2))
              in case asteval H value_expr (variables s) of
                   (Inl e, vars) \<Rightarrow>
                     raiseException (exceptionslist ! 1) line linenum (s\<lparr>variables := vars\<rparr>)
                 | (Inr v, vars) \<Rightarrow> s\<lparr>variables := vars(name \<mapsto> v)\<rparr>)"

text \<open>The branch of keyword \<open>print\<close>.\<close>

definition stmt_print :: "'x host \<Rightarrow> string \<Rightarrow> nat \<Rightarrow> 'x state \<Rightarrow> 'x state" where
  "stmt_print H line linenum s =
     (let expr = strip (drop 6 line)
      in case asteval H expr (variables s) of
           (Inl e, vars) \<Rightarrow>
             raiseException (exceptionslist ! 1) line linenum (s\<lparr>variables := vars\<rparr>)
         | (Inr v, vars) \<Rightarrow>
             s\<lparr>variables := vars, stdout := stdout s @ py_str H v @ [CHR 0x0A]\<rparr>)"

text \<open>The branch of keywords \<open>if\<close> and \<open>elif\<close>.\<close>

definition stmt_if :: "'x host \<Rightarrow> string \<Rightarrow> string \<Rightarrow> nat \<Rightarrow> 'x state \<Rightarrow> 'x state" where
  "stmt_if H keyword line linenum s =
     (let condition_part = strip (drop (length keyword) line)
      in if \<not> endswith condition_part ''{''
         then raiseException (exceptionslist ! 3) line linenum s
         else let condition = strip (butlast condition_part);
                  s1 = s\<lparr>in_block := True, block_type := Some keyword\<rparr>
              in case asteval H condition (variables s1) of
                   (Inl e, vars) \<Rightarrow>
                     raiseException (exceptionslist ! 1) line linenum (s1\<lparr>variables := vars\<rparr>)
                 | (Inr v, vars) \<Rightarrow> s1\<lparr>variables := vars, current_condition := v\<rparr>)"

text \<open>The branch of keyword \<open>else\<close>.\<close>

definition stmt_else :: "string \<Rightarrow> nat \<Rightarrow> 'x state \<Rightarrow> 'x state" where
  "stmt_else line linenum s =
     (let rest = strip (drop (length ''else'') line)
      in if rest \<noteq> ''{''
         then raiseException (exceptionslist ! 3) line linenum s
         else s\<lparr>in_block := True, block_type := Some ''else''\<rparr>)"

text \<open>The branch of keyword \<open>while\<close>: the condition is stored as text.\<close>

definition stmt_while :: "string \<Rightarrow> nat \<Rightarrow> 'x state \<Rightarrow> 'x state" where
  "stmt_while line linenum s =
     (let condition_part = strip (drop (length ''while'') line)
      in if \<not> endswith condition_part ''{''
         then raiseException (exceptionslist ! 3) line linenum s
         else let condition = strip (butlast condition_part)
              in s\<lparr>in_block := True, block_type := Some ''while'',
                   while_condition := condition\<rparr>)"

text \<open>
  The branch of keyword \<open>input\<close>.  \<open>input(prompt)\<close> writes the prompt and reads one line;
  at the end of the input it raises \<open>EOFError\<close>, which the handler of the branch turns
  into an exception record.
\<close>

definition stmt_input :: "'x host \<Rightarrow> string \<Rightarrow> nat \<Rightarrow> 'x state \<Rightarrow> 'x state" where
  "stmt_input H line linenum s =
     (let parts = split_ws line
      in if length parts < 2
         then raiseException (exceptionslist ! 1) line linenum s
         else let varname = parts ! 1;
                  custom_prompt =
                    (case str_find line ''prompt'' of
                       Some prompt_index \<Rightarrow> strip (drop (prompt_index + length ''prompt'') line)
                     | None \<Rightarrow> []);
                  s1 = s\<lparr>stdout := stdout s @ strip_chars custom_prompt [CHR 0x22]\<rparr>
              in case stdin s1 of
                   [] \<Rightarrow> raiseException (exceptionslist ! 1) line linenum s1
                 | user_input # rest \<Rightarrow>
                     (let v = (case int_of_str H user_input of
                                 Some i \<Rightarrow> IntV i
                               | None \<Rightarrow>
                                   (case float_of_str H user_input of
                                      Some f \<Rightarrow> ExtV f
                                    | None \<Rightarrow> StrV user_input))
                      in s1\<lparr>stdin := rest, variables := (variables s1)(varname \<mapsto> v)\<rparr>))"

text \<open>
  Lines 134 to 227 of \<open>interpret_line\<close>: the dispatch on the first token of a line that
  is read while no block is being collected.  Each branch handles its own exceptions, so
  the result is always a state.
\<close>

definition statement :: "'x host \<Rightarrow> string \<Rightarrow> nat \<Rightarrow> 'x state \<Rightarrow> 'x state" where
  "statement H line linenum s =
     (case split_ws (strip line) of
        [] \<Rightarrow> s
      | keyword # _ \<Rightarrow>
          if keyword = ''let'' then stmt_let H line linenum s
          else if keyword = ''print'' then stmt_print H line linenum s
          else if keyword = ''if'' \<or> keyword = ''elif'' then stmt_if H keyword line linenum s
          else if keyword = ''else'' then stmt_else line linenum s
          else if keyword = ''while'' then stmt_while line linenum s
          else if keyword = ''input'' then stmt_input H line linenum s
          else raiseException (exceptionslist ! 0) line linenum s)"

section \<open>Blocks: \<open>interpret_line\<close> and its loops\<close>

text \<open>
  How a call ends: it returns (\<open>Done\<close>), it ends the \<open>while\<close> execution at a \<open>break\<close>
  line (\<open>Break\<close>, for the loops only), or an exception leaves it (\<open>Raised\<close>); each with
  the state at that moment.
\<close>

datatype 'x outcome = Done "'x state" | Break "'x state" | Raised exc "'x state"

fun final :: "'x outcome \<Rightarrow> 'x state" where
  "final (Done s) = s"
| "final (Break s) = s"
| "final (Raised e s) = s"

text \<open>
  \<open>interpret_line\<close> calls itself for every line of a block's body, and a \<open>while\<close> block
  repeats as long as its condition holds, so a call need not return: the first argument
  bounds the depth of the calls and the number of loop steps, and \<open>None\<close> means that the
  bound was reached.

  \<^item> \<open>for_lines\<close> is \<open>for bline in block_lines: interpret_line(bline, ...)\<close> (lines 116-117
    and 122-123) from position \<open>i\<close>;
  \<^item> \<open>for_while\<close> is the same loop with the test for \<open>break\<close> (lines 109-112);
  \<^item> \<open>while_loop\<close> is \<open>while asteval(while_condition, variables): ...\<close> (line 108),
    whose call of \<open>asteval\<close> has no handler around it.

  A \<open>for\<close> loop over a Python list reads the list object by position and asks for its
  length before every step, so it sees what the body appends to \<open>block_lines\<close>
  meanwhile; the loops therefore read \<open>block_lines\<close> from the current state.
\<close>

function (sequential) interpret_line :: "'x host \<Rightarrow> nat \<Rightarrow> string \<Rightarrow> nat \<Rightarrow> 'x state \<Rightarrow> 'x outcome option"
  and while_loop :: "'x host \<Rightarrow> nat \<Rightarrow> nat \<Rightarrow> 'x state \<Rightarrow> 'x outcome option"
  and for_while :: "'x host \<Rightarrow> nat \<Rightarrow> nat \<Rightarrow> nat \<Rightarrow> 'x state \<Rightarrow> 'x outcome option"
  and for_lines :: "'x host \<Rightarrow> nat \<Rightarrow> nat \<Rightarrow> nat \<Rightarrow> 'x state \<Rightarrow> 'x outcome option"
where
  "interpret_line H 0 line linenum s = None"
| "interpret_line H (Suc n) line linenum s =
     (if in_block s then
        (if line = ''}'' then
           (let s1 = s\<lparr>in_block := False\<rparr>
            in if block_type s1 = Some ''while'' then
                 (case while_loop H n linenum s1 of
                    None \<Rightarrow> None
                  | Some (Done s2) \<Rightarrow> Some (Done (s2\<lparr>block_lines := [], block_type := None\<rparr>))
                  | Some (Break s2) \<Rightarrow> Some (Done s2)
                  | Some (Raised e s2) \<Rightarrow> Some (Raised e s2))
               else if block_type s1 = Some ''else'' then
                 (if \<not> executed_a_branch s1 then
                    (case for_lines H n linenum 0 s1 of
                       None \<Rightarrow> None
                     | Some (Done s2) \<Rightarrow>
                         Some (Done (s2\<lparr>executed_a_branch := False,
                                         block_lines := [], block_type := None\<rparr>))
                     | Some r \<Rightarrow> Some r)
                  else Some (Done (s1\<lparr>executed_a_branch := False,
                                       block_lines := [], block_type := None\<rparr>)))
               else if block_type s1 = Some ''if'' \<or> block_type s1 = Some ''elif'' then
                 (if truthy H (current_condition s1) \<and> \<not> executed_a_branch s1 then
                    (case for_lines H n linenum 0 s1 of
                       None \<Rightarrow> None
                     | Some (Done s2) \<Rightarrow>
                         Some (Done (s2\<lparr>executed_a_branch := True,
                                         block_lines := [], block_type := None\<rparr>))
                     | Some r \<Rightarrow> Some r)
                  else Some (Done (s1\<lparr>block_lines := [], block_type := None\<rparr>)))
               else Some (Done (s1\<lparr>block_lines := [], block_type := None\<rparr>)))
         else Some (Done (s\<lparr>block_lines := block_lines s @ [line]\<rparr>)))
      else Some (Done (statement H line linenum s)))"
| "while_loop H 0 linenum s = None"
| "while_loop H (Suc n) linenum s =
     (case asteval H (while_condition s) (variables s) of
        (Inl e, vars) \<Rightarrow> Some (Raised e (s\<lparr>variables := vars\<rparr>))
      | (Inr v, vars) \<Rightarrow>
          if truthy H v then
            (case for_while H n linenum 0 (s\<lparr>variables := vars\<rparr>) of
               None \<Rightarrow> None
             | Some (Done s') \<Rightarrow> while_loop H n linenum s'
             | Some r \<Rightarrow> Some r)
          else Some (Done (s\<lparr>variables := vars\<rparr>)))"
| "for_while H 0 linenum i s = None"
| "for_while H (Suc n) linenum i s =
     (if i < length (block_lines s) then
        (let bline = block_lines s ! i
         in if bline = ''break'' then Some (Break s)
            else (case interpret_line H n bline linenum s of
                    None \<Rightarrow> None
                  | Some (Done s') \<Rightarrow> for_while H n linenum (Suc i) s'
                  | Some r \<Rightarrow> Some r))
      else Some (Done s))"
| "for_lines H 0 linenum i s = None"
| "for_lines H (Suc n) linenum i s =
     (if i < length (block_lines s) then
        (case interpret_line H n (block_lines s ! i) linenum s of
           None \<Rightarrow> None
         | Some (Done s') \<Rightarrow> for_lines H n linenum (Suc i) s'
         | Some r \<Rightarrow> Some r)
      else Some (Done s))"
  by pat_completeness auto

termination
  by (relation "measure (\<lambda>x. case x of
          Inl (Inl (H, n, _)) \<Rightarrow> n | Inl (Inr (H, n, _)) \<Rightarrow> n
        | Inr (Inl (H, n, _)) \<Rightarrow> n | Inr (Inr (H, n, _)) \<Rightarrow> n)") auto

section \<open>The run: \<open>run_minipy\<close>\<close>

text \<open>The state after the resets of lines 237 to 249, with the input still to be read.\<close>

definition init_state :: "string list \<Rightarrow> 'x state" where
  "init_state inp =
     \<lparr>variables = Map.empty, in_block = False, block_type = None, block_lines = [],
      current_condition = BoolV False, executed_a_branch = False, while_condition = [],
      exceptioncount = 0, raisedexceptions = [], stdout = [], stdin = inp\<rparr>"

text \<open>
  The loop of lines 251-252 over the lines that are left, \<open>linenum\<close> being the number of
  the first of them.  An exception that leaves \<open>interpret_line\<close> leaves the loop too.
\<close>

fun run_lines :: "'x host \<Rightarrow> nat \<Rightarrow> string list \<Rightarrow> nat \<Rightarrow> 'x state \<Rightarrow> 'x outcome option" where
  "run_lines H n [] linenum s = Some (Done s)"
| "run_lines H n (line # rest) linenum s =
     (case interpret_line H n (strip line) linenum s of
        None \<Rightarrow> None
      | Some (Done s') \<Rightarrow> run_lines H n rest (Suc linenum) s'
      | Some r \<Rightarrow> Some r)"

text \<open>\<open>print(text)\<close>\<close>

definition print_line :: "string \<Rightarrow> 'x state \<Rightarrow> 'x state" where
  "print_line text s = s\<lparr>stdout := stdout s @ text @ [CHR 0x0A]\<rparr>"

text \<open>Lines 254 to 256: the exception records and the return code.\<close>

definition report :: "'x host \<Rightarrow> 'x state \<Rightarrow> 'x state" where
  "report H s =
     print_line
       ([CHR 0x0A] @ (if exceptioncount s = 0 then GREEN H else RED H)
          @ ''Exited with return code: '' @ str_of_nat (exceptioncount s) @ RESET H)
       (foldl (\<lambda>s' exception. print_line ([CHR 0x0A] @ RED H @ exception @ RESET H) s')
          s (raisedexceptions s))"

definition run_minipy :: "'x host \<Rightarrow> nat \<Rightarrow> string \<Rightarrow> string list \<Rightarrow> 'x outcome option" where
  "run_minipy H n code inp =
     (case run_lines H n (splitlines code) 0 (init_state inp) of
        None \<Rightarrow> None
      | Some (Done s) \<Rightarrow> Some (Done (report H s))
      | Some r \<Rightarrow> Some r)"

section \<open>A runtime for closed examples\<close>

text \<open>
  The theorems below hold for every runtime \<open>H\<close>.  Closed examples need one runtime:
  \<open>demo_host\<close> gives, for the expression texts that the examples use, the syntax tree
  that Python's \<open>ast.parse\<close> gives, and \<open>SyntaxError\<close> for every other text; its floats
  are exact rationals, it reads no input line as a number, and its string formatting
  raises.  The examples use its parser, its integer division and its colours only.
\<close>

definition demo_trees :: "(string \<times> rat expr) list" where
  "demo_trees =
     [(''0'', Constant (IntV 0)),
      (''1'', Constant (IntV 1)),
      (''2'', Constant (IntV 2)),
      (''3'', Constant (IntV 3)),
      (''x'', Name ''x''),
      (''y'', Name ''y''),
      (''x < 3'', Compare (Name ''x'') [Lt] [Constant (IntV 3)]),
      (''x + 1'', BinOp (Name ''x'') Add (Constant (IntV 1))),
      (''1 / 0'', BinOp (Constant (IntV 1)) Div (Constant (IntV 0))),
      (''7 / 2'', BinOp (Constant (IntV 7)) Div (Constant (IntV 2))),
      (''1 < 2 < y'', Compare (Constant (IntV 1)) [Lt, Lt] [Constant (IntV 2), Name ''y''])]"

definition demo_parse :: "string \<Rightarrow> exc + rat expr" where
  "demo_parse text = (case map_of demo_trees text of Some tree \<Rightarrow> Inr tree | None \<Rightarrow> Inl SyntaxError)"

fun demo_num :: "rat val \<Rightarrow> rat option" where
  "demo_num (IntV i) = Some (of_int i)"
| "demo_num (BoolV b) = Some (if b then 1 else 0)"
| "demo_num (ExtV q) = Some q"
| "demo_num _ = None"

definition demo_binop :: "binop \<Rightarrow> rat val \<Rightarrow> rat val \<Rightarrow> exc + rat val" where
  "demo_binop op l r =
     (case (demo_num l, demo_num r) of
        (Some a, Some b) \<Rightarrow>
          (case op of
             Add \<Rightarrow> Inr (ExtV (a + b))
           | Sub \<Rightarrow> Inr (ExtV (a - b))
           | Mult \<Rightarrow> Inr (ExtV (a * b))
           | Div \<Rightarrow> if b = 0 then Inl ZeroDivisionError else Inr (ExtV (a / b))
           | Mod \<Rightarrow> if b = 0 then Inl ZeroDivisionError
                    else Inr (ExtV (a - b * of_int \<lfloor>a / b\<rfloor>))
           | OtherBinOp \<Rightarrow> Inl UnsupportedOperator)
      | _ \<Rightarrow> Inl TypeError)"

definition demo_compare :: "cmpop \<Rightarrow> rat val \<Rightarrow> rat val \<Rightarrow> exc + rat val" where
  "demo_compare op l r =
     (case (demo_num l, demo_num r) of
        (Some a, Some b) \<Rightarrow>
          (case op of
             Gt \<Rightarrow> Inr (BoolV (b < a))
           | Lt \<Rightarrow> Inr (BoolV (a < b))
           | Eq \<Rightarrow> Inr (BoolV (a = b))
           | NotEq \<Rightarrow> Inr (BoolV (a \<noteq> b))
           | GtE \<Rightarrow> Inr (BoolV (b \<le> a))
           | LtE \<Rightarrow> Inr (BoolV (a \<le> b))
           | OtherCmpOp \<Rightarrow> Inl UnsupportedOperator)
      | _ \<Rightarrow> (case op of
                Eq \<Rightarrow> Inr (BoolV False)
              | NotEq \<Rightarrow> Inr (BoolV True)
              | _ \<Rightarrow> Inl TypeError))"

definition demo_unary :: "unaryop \<Rightarrow> rat \<Rightarrow> exc + rat val" where
  "demo_unary op q =
     (case op of
        UAdd \<Rightarrow> Inr (ExtV q)
      | USub \<Rightarrow> Inr (ExtV (- q))
      | OtherUnaryOp \<Rightarrow> Inl UnsupportedOperator)"

definition demo_str :: "rat \<Rightarrow> string" where
  "demo_str q = (case quotient_of q of (a, b) \<Rightarrow> str_of_int a @ ''/'' @ str_of_int b)"

definition demo_host :: "rat host" where
  "demo_host =
     \<lparr>ast_parse = demo_parse,
      ext_binop = demo_binop,
      int_truediv = (\<lambda>a b. Inr (of_int a / of_int b)),
      str_repeat = (\<lambda>s n. Inr (concat (replicate (nat n) s))),
      str_format = (\<lambda>s v. Inl TypeError),
      ext_compare = demo_compare,
      ext_unary = demo_unary,
      ext_truth = (\<lambda>q. q \<noteq> 0),
      ext_str = demo_str,
      int_of_str = (\<lambda>s. None),
      float_of_str = (\<lambda>s. None),
      RED = CHR 0x1B # ''[31m'',
      GREEN = CHR 0x1B # ''[32m'',
      RESET = CHR 0x1B # ''[39m''\<rparr>"

section \<open>Notions used to state the claims\<close>

text \<open>
  The exception log grows from \<open>s\<close> to \<open>s'\<close>: the records of \<open>s\<close> are still there, in
  their order, and the count has grown by the number of records added.
\<close>

definition log_grows :: "'x state \<Rightarrow> 'x state \<Rightarrow> bool" where
  "log_grows s s' =
     (prefix (raisedexceptions s) (raisedexceptions s')
      \<and> exceptioncount s' + length (raisedexceptions s) =
          exceptioncount s + length (raisedexceptions s'))"

text \<open>
  A line opens a block when its first token is one of the four block keywords.  The
  other lines (\<open>let\<close>, \<open>print\<close>, \<open>input\<close>, empty and unknown lines) are the statements
  that a body can hold without a block inside a block.
\<close>

definition opens_block :: "string \<Rightarrow> bool" where
  "opens_block line =
     (case split_ws (strip line) of
        [] \<Rightarrow> False
      | keyword # _ \<Rightarrow>
          keyword = ''if'' \<or> keyword = ''elif'' \<or> keyword = ''else'' \<or> keyword = ''while'')"

text \<open>
  The lines of a body run once, in order, each as a statement outside a block and with
  the line number \<open>linenum\<close> of the closing brace, as the replay passes it on.
\<close>

definition run_body :: "'x host \<Rightarrow> string list \<Rightarrow> nat \<Rightarrow> 'x state \<Rightarrow> 'x state" where
  "run_body H lines linenum s = foldl (\<lambda>s' line. statement H line linenum s') s lines"

text \<open>
  What \<open>interpret_line\<close> does with a line other than the closing brace: it appends the
  line to the body buffer while a block is being collected, and runs it as a statement
  otherwise.
\<close>

definition replay_step :: "'x host \<Rightarrow> nat \<Rightarrow> 'x state \<Rightarrow> string \<Rightarrow> 'x state" where
  "replay_step H linenum s line =
     (if in_block s then s\<lparr>block_lines := block_lines s @ [line]\<rparr>
      else statement H line linenum s)"

section \<open>The evaluator does not write to the environment\<close>

lemma visit_env: "visit H e vars = (r, vars') \<Longrightarrow> vars' = vars"
proof (induction H e vars arbitrary: r vars' rule: visit.induct)
  case (1 H l op r variables)
  then show ?case
    by (fastforce split: prod.splits sum.splits)
next
  case (2 H l ops comparators variables)
  then show ?case
    by (fastforce split: prod.splits sum.splits list.splits)
next
  case (6 H op e variables)
  then show ?case
    by (fastforce split: prod.splits sum.splits)
qed (auto split: option.splits)

lemma visit_snd [simp]: "snd (visit H e vars) = vars"
  using visit_env [of H e vars] by (cases "visit H e vars") simp

lemma asteval_snd [simp]: "snd (asteval H expr vars) = vars"
  using visit_env [of H _ vars] by (auto simp: asteval_def split: prod.splits sum.splits)

lemma asteval_env: "asteval H expr vars = (r, vars') \<Longrightarrow> vars' = vars"
  using asteval_snd [of H expr vars] by simp

lemma asteval_pair: "asteval H expr vars = (fst (asteval H expr vars), vars)"
  by (metis asteval_snd prod.collapse)

section \<open>Evaluating the string primitives and the example runtime\<close>

lemmas str_simps = strip_def isspace_def split_ws_def endswith_def startswith_def

lemmas demo_simps = demo_host_def demo_parse_def demo_trees_def asteval_def

section \<open>The equations of \<open>interpret_line\<close> and its loops, case by case\<close>

text \<open>
  The defining equations are large; they are taken out of the simplifier's rules and
  replaced by one equation for each path through the closing brace, for a collected
  line and for a statement.  The loops are restated with the environment that
  \<open>asteval\<close> returns replaced by the one it was given.
\<close>

declare interpret_line.simps(2) [simp del] while_loop.simps(2) [simp del]
  for_while.simps(2) [simp del] for_lines.simps(2) [simp del]

lemma interp_statement:
  "\<not> in_block s \<Longrightarrow> interpret_line H (Suc n) line k s = Some (Done (statement H line k s))"
  by (simp add: interpret_line.simps(2))

lemma interp_collect:
  "in_block s \<Longrightarrow> line \<noteq> ''}'' \<Longrightarrow>
   interpret_line H (Suc n) line k s = Some (Done (s\<lparr>block_lines := block_lines s @ [line]\<rparr>))"
  by (simp add: interpret_line.simps(2))

lemma interp_close_while:
  "in_block s \<Longrightarrow> block_type s = Some ''while'' \<Longrightarrow>
   interpret_line H (Suc n) ''}'' k s =
     (case while_loop H n k (s\<lparr>in_block := False\<rparr>) of
        None \<Rightarrow> None
      | Some (Done s2) \<Rightarrow> Some (Done (s2\<lparr>block_lines := [], block_type := None\<rparr>))
      | Some (Break s2) \<Rightarrow> Some (Done s2)
      | Some (Raised e s2) \<Rightarrow> Some (Raised e s2))"
  by (simp add: interpret_line.simps(2))

lemma interp_close_else:
  "in_block s \<Longrightarrow> block_type s = Some ''else'' \<Longrightarrow>
   interpret_line H (Suc n) ''}'' k s =
     (if \<not> executed_a_branch s then
        (case for_lines H n k 0 (s\<lparr>in_block := False\<rparr>) of
           None \<Rightarrow> None
         | Some (Done s2) \<Rightarrow>
             Some (Done (s2\<lparr>executed_a_branch := False, block_lines := [], block_type := None\<rparr>))
         | Some r \<Rightarrow> Some r)
      else Some (Done (s\<lparr>in_block := False, executed_a_branch := False,
                         block_lines := [], block_type := None\<rparr>)))"
  by (simp add: interpret_line.simps(2))

lemma interp_close_if:
  "in_block s \<Longrightarrow> block_type s = Some ''if'' \<or> block_type s = Some ''elif'' \<Longrightarrow>
   interpret_line H (Suc n) ''}'' k s =
     (if truthy H (current_condition s) \<and> \<not> executed_a_branch s then
        (case for_lines H n k 0 (s\<lparr>in_block := False\<rparr>) of
           None \<Rightarrow> None
         | Some (Done s2) \<Rightarrow>
             Some (Done (s2\<lparr>executed_a_branch := True, block_lines := [], block_type := None\<rparr>))
         | Some r \<Rightarrow> Some r)
      else Some (Done (s\<lparr>in_block := False, block_lines := [], block_type := None\<rparr>)))"
  by (auto simp add: interpret_line.simps(2))

lemma interp_close_other:
  "in_block s \<Longrightarrow> block_type s \<noteq> Some ''while'' \<Longrightarrow> block_type s \<noteq> Some ''else'' \<Longrightarrow>
   block_type s \<noteq> Some ''if'' \<Longrightarrow> block_type s \<noteq> Some ''elif'' \<Longrightarrow>
   interpret_line H (Suc n) ''}'' k s =
     Some (Done (s\<lparr>in_block := False, block_lines := [], block_type := None\<rparr>))"
  by (simp add: interpret_line.simps(2))

lemma while_loop_Suc:
  "while_loop H (Suc n) k s =
     (case fst (asteval H (while_condition s) (variables s)) of
        Inl e \<Rightarrow> Some (Raised e s)
      | Inr v \<Rightarrow>
          if truthy H v then
            (case for_while H n k 0 s of
               None \<Rightarrow> None
             | Some (Done s') \<Rightarrow> while_loop H n k s'
             | Some r \<Rightarrow> Some r)
          else Some (Done s))"
  by (subst while_loop.simps, subst asteval_pair) (simp split: sum.splits)

lemma for_while_Suc:
  "for_while H (Suc n) k i s =
     (if i < length (block_lines s) then
        (if block_lines s ! i = ''break'' then Some (Break s)
         else (case interpret_line H n (block_lines s ! i) k s of
                 None \<Rightarrow> None
               | Some (Done s') \<Rightarrow> for_while H n k (Suc i) s'
               | Some r \<Rightarrow> Some r))
      else Some (Done s))"
  by (simp add: for_while.simps(2))

lemmas for_lines_Suc = for_lines.simps(2)

section \<open>A failing evaluation inside a statement\<close>

text \<open>
  A name without a value makes \<open>visit_Name\<close> raise.  In a \<open>print\<close> and in a \<open>let\<close>
  the handler of the branch turns any failure of \<open>asteval\<close> into one
  \<open>Invalid syntax\<close> record and the call returns; for \<open>if\<close> and \<open>elif\<close> see claim C9.
  A name that the visitor does not reach raises nothing: \<open>visit_Compare\<close> reads the
  first comparator only, so the \<open>y\<close> of \<open>1 < 2 < y\<close> is never looked up.
\<close>

lemma undefined_name_raises:
  "vars x = None \<Longrightarrow> visit H (Name x) vars = (Inl (NameError x), vars)"
  by simp

lemma print_failure_recorded:
  assumes "\<not> in_block s"
    and "split_ws (strip line) = ''print'' # toks"
    and "fst (asteval H (strip (drop 6 line)) (variables s)) = Inl e"
  shows "interpret_line H (Suc n) line k s =
         Some (Done (raiseException ''Invalid syntax'' line k s))"
proof -
  have "asteval H (strip (drop 6 line)) (variables s) = (Inl e, variables s)"
    using assms(3) asteval_pair [of H "strip (drop 6 line)" "variables s"] by simp
  with assms(1,2) show ?thesis
    by (simp add: interp_statement statement_def stmt_print_def exceptionslist_def)
qed

lemma let_failure_recorded:
  assumes "\<not> in_block s"
    and "split_ws (strip line) = ''let'' # toks"
    and "split_max 2 line = [kw, name, rhs]"
    and "startswith rhs ''=''"
    and "fst (asteval H (strip (drop 1 rhs)) (variables s)) = Inl e"
  shows "interpret_line H (Suc n) line k s =
         Some (Done (raiseException ''Invalid syntax'' line k s))"
proof -
  have "asteval H (strip (drop 1 rhs)) (variables s) = (Inl e, variables s)"
    using assms(5) asteval_pair [of H "strip (drop 1 rhs)" "variables s"] by simp
  with assms(1-4) show ?thesis
    by (simp add: interp_statement statement_def stmt_let_def exceptionslist_def)
qed

lemma chained_comparison_skips_name:
  "fst (asteval demo_host ''1 < 2 < y'' Map.empty) = Inr (BoolV True)"
  by (simp add: demo_simps py_order_def)

section \<open>The exception log only grows\<close>

lemma log_grows_refl [simp]: "log_grows s s"
  by (simp add: log_grows_def)

lemma log_grows_trans: "log_grows a b \<Longrightarrow> log_grows b c \<Longrightarrow> log_grows a c"
  unfolding log_grows_def using prefix_order.trans by fastforce

lemma log_grows_left [simp]:
  "log_grows (s\<lparr>variables := a\<rparr>) s' = log_grows s s'"
  "log_grows (s\<lparr>in_block := b\<rparr>) s' = log_grows s s'"
  "log_grows (s\<lparr>block_type := c\<rparr>) s' = log_grows s s'"
  "log_grows (s\<lparr>block_lines := d\<rparr>) s' = log_grows s s'"
  "log_grows (s\<lparr>current_condition := e\<rparr>) s' = log_grows s s'"
  "log_grows (s\<lparr>executed_a_branch := f\<rparr>) s' = log_grows s s'"
  "log_grows (s\<lparr>while_condition := g\<rparr>) s' = log_grows s s'"
  "log_grows (s\<lparr>stdout := h\<rparr>) s' = log_grows s s'"
  "log_grows (s\<lparr>stdin := i\<rparr>) s' = log_grows s s'"
  by (simp_all add: log_grows_def)

lemma log_grows_right [simp]:
  "log_grows s (s'\<lparr>variables := a\<rparr>) = log_grows s s'"
  "log_grows s (s'\<lparr>in_block := b\<rparr>) = log_grows s s'"
  "log_grows s (s'\<lparr>block_type := c\<rparr>) = log_grows s s'"
  "log_grows s (s'\<lparr>block_lines := d\<rparr>) = log_grows s s'"
  "log_grows s (s'\<lparr>current_condition := e\<rparr>) = log_grows s s'"
  "log_grows s (s'\<lparr>executed_a_branch := f\<rparr>) = log_grows s s'"
  "log_grows s (s'\<lparr>while_condition := g\<rparr>) = log_grows s s'"
  "log_grows s (s'\<lparr>stdout := h\<rparr>) = log_grows s s'"
  "log_grows s (s'\<lparr>stdin := i\<rparr>) = log_grows s s'"
  by (simp_all add: log_grows_def)

lemma log_grows_raise [simp]: "log_grows s (raiseException t l k s) = True"
  by (simp add: log_grows_def raiseException_def)

lemma log_grows_raise_upd [simp]:
  "log_grows s (raiseException t l k (s\<lparr>variables := a\<rparr>))"
  "log_grows s (raiseException t l k (s\<lparr>stdout := h\<rparr>))"
  "log_grows s (raiseException t l k (s\<lparr>in_block := b, block_type := c, variables := a\<rparr>))"
  by (simp_all add: log_grows_def raiseException_def)

lemma log_grows_let: "log_grows s (stmt_let H line k s)"
  by (simp add: stmt_let_def Let_def split: prod.splits sum.splits)

lemma log_grows_print: "log_grows s (stmt_print H line k s)"
  by (simp add: stmt_print_def Let_def split: prod.splits sum.splits)

lemma log_grows_if: "log_grows s (stmt_if H kw line k s)"
  by (simp add: stmt_if_def Let_def split: prod.splits sum.splits)

lemma log_grows_else: "log_grows s (stmt_else line k s)"
  by (simp add: stmt_else_def Let_def)

lemma log_grows_while: "log_grows s (stmt_while line k s)"
  by (simp add: stmt_while_def Let_def)

lemma log_grows_input: "log_grows s (stmt_input H line k s)"
  by (simp add: stmt_input_def Let_def split: list.splits option.splits)

lemma log_grows_statement: "log_grows s (statement H line k s)"
  by (simp add: statement_def log_grows_let log_grows_print log_grows_if log_grows_else
      log_grows_while log_grows_input split: list.splits)

lemma log_grows_loops:
  "(\<forall>line k s r. interpret_line H n line k s = Some r \<longrightarrow> log_grows s (final r))
   \<and> (\<forall>k s r. while_loop H n k s = Some r \<longrightarrow> log_grows s (final r))
   \<and> (\<forall>k i s r. for_while H n k i s = Some r \<longrightarrow> log_grows s (final r))
   \<and> (\<forall>k i s r. for_lines H n k i s = Some r \<longrightarrow> log_grows s (final r))"
proof (induction n)
  case 0
  show ?case by simp
next
  case (Suc n)
  then have IL: "\<And>line k s r. interpret_line H n line k s = Some r \<Longrightarrow> log_grows s (final r)"
    and WL: "\<And>k s r. while_loop H n k s = Some r \<Longrightarrow> log_grows s (final r)"
    and FW: "\<And>k i s r. for_while H n k i s = Some r \<Longrightarrow> log_grows s (final r)"
    and FL: "\<And>k i s r. for_lines H n k i s = Some r \<Longrightarrow> log_grows s (final r)"
    by blast+
  have 1: "log_grows s (final r)" if run: "interpret_line H (Suc n) line k s = Some r" for line k s r
  proof (cases "in_block s")
    case False
    with run show ?thesis by (auto simp: interp_statement log_grows_statement)
  next
    case True
    show ?thesis
    proof (cases "line = ''}''")
      case False
      with True run show ?thesis by (auto simp: interp_collect)
    next
      case brace: True
      let ?s1 = "s\<lparr>in_block := False\<rparr>"
      consider (while) "block_type s = Some ''while''"
        | (else) "block_type s = Some ''else''"
        | (cond) "block_type s = Some ''if'' \<or> block_type s = Some ''elif''"
        | (other) "block_type s \<noteq> Some ''while''" "block_type s \<noteq> Some ''else''"
            "block_type s \<noteq> Some ''if''" "block_type s \<noteq> Some ''elif''"
        by blast
      then show ?thesis
      proof cases
        case while
        with True brace run WL [of k ?s1] show ?thesis
          by (auto simp: interp_close_while split: option.splits outcome.splits)
      next
        case else
        with True brace run FL [of k 0 ?s1] show ?thesis
          by (auto simp: interp_close_else split: if_splits option.splits outcome.splits)
      next
        case cond
        with True brace run FL [of k 0 ?s1] show ?thesis
          by (auto simp: interp_close_if split: if_splits option.splits outcome.splits)
      next
        case other
        with True brace run show ?thesis
          by (auto simp: interp_close_other)
      qed
    qed
  qed
  have 2: "log_grows s (final r)" if "while_loop H (Suc n) k s = Some r" for k s r
    using that FW [of k 0 s] WL [of k _ r]
    by (auto simp: while_loop_Suc split: sum.splits if_splits option.splits outcome.splits
        intro: log_grows_trans)
  have 3: "log_grows s (final r)" if "for_while H (Suc n) k i s = Some r" for k i s r
    using that IL [of "block_lines s ! i" k s] FW [of k "Suc i" _ r]
    by (auto simp: for_while_Suc split: if_splits option.splits outcome.splits
        intro: log_grows_trans)
  have 4: "log_grows s (final r)" if "for_lines H (Suc n) k i s = Some r" for k i s r
    using that IL [of "block_lines s ! i" k s] FL [of k "Suc i" _ r]
    by (auto simp: for_lines_Suc split: if_splits option.splits outcome.splits
        intro: log_grows_trans)
  from 1 2 3 4 show ?case by blast
qed

lemma log_grows_run_lines:
  "run_lines H n lines k s = Some r \<Longrightarrow> log_grows s (final r)"
proof (induction lines arbitrary: k s)
  case Nil
  then show ?case by auto
next
  case (Cons line rest)
  from Cons.prems obtain r1 where r1: "interpret_line H n (strip line) k s = Some r1"
    by (auto split: option.splits)
  then have g1: "log_grows s (final r1)" using log_grows_loops [of H n] by blast
  show ?case
  proof (cases r1)
    case (Done s')
    with Cons.prems r1 have "run_lines H n rest (Suc k) s' = Some r" by simp
    then have "log_grows s' (final r)" by (rule Cons.IH)
    with g1 Done show ?thesis by (auto intro: log_grows_trans)
  next
    case (Break s')
    with Cons.prems r1 g1 show ?thesis by auto
  next
    case (Raised e s')
    with Cons.prems r1 g1 show ?thesis by auto
  qed
qed

lemma report_log [simp]:
  "raisedexceptions (report H s) = raisedexceptions s"
  "exceptioncount (report H s) = exceptioncount s"
proof -
  have a: "raisedexceptions (foldl (\<lambda>s' x. print_line (f x) s') t xs) = raisedexceptions t
    \<and> exceptioncount (foldl (\<lambda>s' x. print_line (f x) s') t xs) = exceptioncount t"
    for f :: "string \<Rightarrow> string" and t :: "'a state" and xs
    by (induction xs arbitrary: t) (simp_all add: print_line_def)
  show "raisedexceptions (report H s) = raisedexceptions s"
    using a [of "\<lambda>x. [CHR 0x0A] @ RED H @ x @ RESET H" s "raisedexceptions s"]
    by (simp add: report_def print_line_def)
  show "exceptioncount (report H s) = exceptioncount s"
    using a [of "\<lambda>x. [CHR 0x0A] @ RED H @ x @ RESET H" s "raisedexceptions s"]
    by (simp add: report_def print_line_def)
qed

section \<open>What the report writes\<close>

lemma stdout_print_line: "stdout (print_line msg t) = stdout t @ msg @ [CHR 0x0A]"
  by (simp add: print_line_def)

lemma stdout_report:
  "\<exists>out. stdout (report H s) =
     out @ [CHR 0x0A] @ (if exceptioncount s = 0 then GREEN H else RED H)
       @ ''Exited with return code: '' @ str_of_nat (exceptioncount s) @ RESET H @ [CHR 0x0A]"
proof -
  have "stdout (report H s) =
      stdout (foldl (\<lambda>s' exception. print_line ([CHR 0x0A] @ RED H @ exception @ RESET H) s')
                s (raisedexceptions s)) @
          ([CHR 0x0A] @ (if exceptioncount s = 0 then GREEN H else RED H)
            @ ''Exited with return code: '' @ str_of_nat (exceptioncount s) @ RESET H)
          @ [CHR 0x0A]"
    unfolding report_def by (rule stdout_print_line)
  then have h: "stdout (report H s) =
      stdout (foldl (\<lambda>s' exception. print_line ([CHR 0x0A] @ RED H @ exception @ RESET H) s')
                s (raisedexceptions s)) @
          [CHR 0x0A] @ (if exceptioncount s = 0 then GREEN H else RED H)
            @ ''Exited with return code: '' @ str_of_nat (exceptioncount s) @ RESET H
          @ [CHR 0x0A]"
    by (simp only: append_assoc)
  show ?thesis
    by (rule exI [where x = "stdout (foldl
          (\<lambda>s' exception. print_line ([CHR 0x0A] @ RED H @ exception @ RESET H) s')
          s (raisedexceptions s))"]) (fact h)
qed

section \<open>Evaluating \<open>str_of_nat\<close>\<close>

lemma str_of_nat_digit: "n < 10 \<Longrightarrow> str_of_nat n = [digit_char n]"
  by (subst str_of_nat.simps) simp

lemma str_of_nat_more:
  "10 \<le> n \<Longrightarrow> str_of_nat n = str_of_nat (n div 10) @ [digit_char (n mod 10)]"
  by (subst str_of_nat.simps) simp

section \<open>A larger bound does not change a result\<close>

text \<open>
  Once a call returns within a bound it returns the same with any larger one, so a
  result found with some bound is the result of the program.
\<close>

lemma fuel_step:
  "(\<forall>line k s r. interpret_line H n line k s = Some r \<longrightarrow>
        interpret_line H (Suc n) line k s = Some r)
   \<and> (\<forall>k s r. while_loop H n k s = Some r \<longrightarrow> while_loop H (Suc n) k s = Some r)
   \<and> (\<forall>k i s r. for_while H n k i s = Some r \<longrightarrow> for_while H (Suc n) k i s = Some r)
   \<and> (\<forall>k i s r. for_lines H n k i s = Some r \<longrightarrow> for_lines H (Suc n) k i s = Some r)"
proof (induction n)
  case 0
  show ?case by simp
next
  case (Suc n)
  then have IL: "\<And>line k s r. interpret_line H n line k s = Some r \<Longrightarrow>
        interpret_line H (Suc n) line k s = Some r"
    and WL: "\<And>k s r. while_loop H n k s = Some r \<Longrightarrow> while_loop H (Suc n) k s = Some r"
    and FW: "\<And>k i s r. for_while H n k i s = Some r \<Longrightarrow> for_while H (Suc n) k i s = Some r"
    and FL: "\<And>k i s r. for_lines H n k i s = Some r \<Longrightarrow> for_lines H (Suc n) k i s = Some r"
    by blast+
  have 1: "interpret_line H (Suc (Suc n)) line k s = Some r"
    if run: "interpret_line H (Suc n) line k s = Some r" for line k s r
  proof (cases "in_block s")
    case False
    with run show ?thesis by (simp add: interp_statement)
  next
    case True
    show ?thesis
    proof (cases "line = ''}''")
      case False
      with True run show ?thesis by (simp add: interp_collect)
    next
      case brace: True
      let ?s1 = "s\<lparr>in_block := False\<rparr>"
      consider (while) "block_type s = Some ''while''"
        | (else) "block_type s = Some ''else''"
        | (cond) "block_type s = Some ''if'' \<or> block_type s = Some ''elif''"
        | (other) "block_type s \<noteq> Some ''while''" "block_type s \<noteq> Some ''else''"
            "block_type s \<noteq> Some ''if''" "block_type s \<noteq> Some ''elif''"
        by blast
      then show ?thesis
      proof cases
        case while
        from True brace while run obtain q where q: "while_loop H n k ?s1 = Some q"
          by (auto simp: interp_close_while split: option.splits)
        from WL [OF q] q True brace while run show ?thesis
          by (simp add: interp_close_while)
      next
        case else
        show ?thesis
        proof (cases "executed_a_branch s")
          case True
          with \<open>in_block s\<close> brace else run show ?thesis by (simp add: interp_close_else)
        next
          case False
          with \<open>in_block s\<close> brace else run obtain q where q: "for_lines H n k 0 ?s1 = Some q"
            by (auto simp: interp_close_else split: option.splits)
          from FL [OF q] q False \<open>in_block s\<close> brace else run show ?thesis
            by (simp add: interp_close_else)
        qed
      next
        case cond
        show ?thesis
        proof (cases "truthy H (current_condition s) \<and> \<not> executed_a_branch s")
          case False
          with True brace cond run show ?thesis by (auto simp: interp_close_if)
        next
          case go: True
          with True brace cond run obtain q where q: "for_lines H n k 0 ?s1 = Some q"
            by (auto simp: interp_close_if split: option.splits)
          from FL [OF q] q go True brace cond run show ?thesis
            by (simp add: interp_close_if)
        qed
      next
        case other
        with True brace run show ?thesis by (simp add: interp_close_other)
      qed
    qed
  qed
  have 2: "while_loop H (Suc (Suc n)) k s = Some r" if run: "while_loop H (Suc n) k s = Some r"
    for k s r
  proof (cases "fst (asteval H (while_condition s) (variables s))")
    case (Inl e)
    with run show ?thesis by (simp add: while_loop_Suc)
  next
    case (Inr v)
    show ?thesis
    proof (cases "truthy H v")
      case False
      with Inr run show ?thesis by (simp add: while_loop_Suc)
    next
      case True
      with Inr run obtain q where q: "for_while H n k 0 s = Some q"
        by (auto simp: while_loop_Suc split: option.splits)
      show ?thesis
      proof (cases q)
        case (Done s')
        with q Inr True run have "while_loop H n k s' = Some r" by (simp add: while_loop_Suc)
        then have "while_loop H (Suc n) k s' = Some r" by (rule WL)
        with FW [OF q] Done Inr True show ?thesis by (simp add: while_loop_Suc)
      next
        case (Break s')
        with FW [OF q] q Inr True run show ?thesis by (auto simp: while_loop_Suc)
      next
        case (Raised e s')
        with FW [OF q] q Inr True run show ?thesis by (auto simp: while_loop_Suc)
      qed
    qed
  qed
  have 3: "for_while H (Suc (Suc n)) k i s = Some r" if run: "for_while H (Suc n) k i s = Some r"
    for k i s r
  proof (cases "i < length (block_lines s) \<and> block_lines s ! i \<noteq> ''break''")
    case False
    with run show ?thesis by (auto simp: for_while_Suc)
  next
    case True
    with run obtain q where q: "interpret_line H n (block_lines s ! i) k s = Some q"
      by (auto simp: for_while_Suc split: option.splits)
    show ?thesis
    proof (cases q)
      case (Done s')
      with q True run have "for_while H n k (Suc i) s' = Some r" by (simp add: for_while_Suc)
      then have "for_while H (Suc n) k (Suc i) s' = Some r" by (rule FW)
      with IL [OF q] Done True show ?thesis by (simp add: for_while_Suc)
    next
      case (Break s')
      with IL [OF q] q True run show ?thesis by (auto simp: for_while_Suc)
    next
      case (Raised e s')
      with IL [OF q] q True run show ?thesis by (auto simp: for_while_Suc)
    qed
  qed
  have 4: "for_lines H (Suc (Suc n)) k i s = Some r" if run: "for_lines H (Suc n) k i s = Some r"
    for k i s r
  proof (cases "i < length (block_lines s)")
    case False
    with run show ?thesis by (auto simp: for_lines_Suc)
  next
    case True
    with run obtain q where q: "interpret_line H n (block_lines s ! i) k s = Some q"
      by (auto simp: for_lines_Suc split: option.splits)
    show ?thesis
    proof (cases q)
      case (Done s')
      with q True run have "for_lines H n k (Suc i) s' = Some r" by (simp add: for_lines_Suc)
      then have "for_lines H (Suc n) k (Suc i) s' = Some r" by (rule FL)
      with IL [OF q] Done True show ?thesis by (simp add: for_lines_Suc)
    next
      case (Break s')
      with IL [OF q] q True run show ?thesis by (auto simp: for_lines_Suc)
    next
      case (Raised e s')
      with IL [OF q] q True run show ?thesis by (auto simp: for_lines_Suc)
    qed
  qed
  from 1 2 3 4 show ?case by blast
qed

lemma interpret_line_mono:
  assumes "n \<le> m" and "interpret_line H n line k s = Some r"
  shows "interpret_line H m line k s = Some r"
  using assms
proof (induction m)
  case 0
  then show ?case by simp
next
  case (Suc m)
  show ?case
  proof (cases "n = Suc m")
    case True
    with Suc.prems show ?thesis by simp
  next
    case False
    with Suc.prems have "n \<le> m" by simp
    with Suc have "interpret_line H m line k s = Some r" by simp
    with fuel_step [of H m] show ?thesis by blast
  qed
qed

lemma run_lines_mono:
  assumes "n \<le> m" and "run_lines H n lines k s = Some r"
  shows "run_lines H m lines k s = Some r"
  using assms(2)
proof (induction lines arbitrary: k s)
  case Nil
  then show ?case by simp
next
  case (Cons line rest)
  from Cons.prems obtain q where q: "interpret_line H n (strip line) k s = Some q"
    by (auto split: option.splits)
  from interpret_line_mono [OF assms(1) q] have q': "interpret_line H m (strip line) k s = Some q" .
  show ?case
  proof (cases q)
    case (Done s')
    with q Cons.prems have "run_lines H n rest (Suc k) s' = Some r" by simp
    then have "run_lines H m rest (Suc k) s' = Some r" by (rule Cons.IH)
    with q' Done show ?thesis by simp
  next
    case (Break s')
    with q Cons.prems have "r = q" by simp
    with q' Break show ?thesis by simp
  next
    case (Raised e s')
    with q Cons.prems have "r = q" by simp
    with q' Raised show ?thesis by simp
  qed
qed

section \<open>The counting loop\<close>

text \<open>
  The lines of the program \<open>while x < 3 {\<close>, \<open>print x\<close>, \<open>let x = x + 1\<close>, \<open>}\<close>, one
  by one, for any runtime whose parser gives the three expression texts the trees that
  Python's parser gives them.
\<close>

lemma open_count_loop:
  "\<not> in_block s \<Longrightarrow>
   interpret_line H (Suc n) ''while x < 3 {'' k s =
     Some (Done (s\<lparr>in_block := True, block_type := Some ''while'',
                   while_condition := ''x < 3''\<rparr>))"
  by (simp add: interp_statement statement_def stmt_while_def str_simps)

lemma count_condition:
  assumes "ast_parse H ''x < 3'' = Inr (Compare (Name ''x'') [Lt] [Constant (IntV 3)])"
    and "vars ''x'' = Some (IntV i)"
  shows "fst (asteval H ''x < 3'' vars) = Inr (BoolV (i < 3))"
  using assms by (simp add: asteval_def py_order_def)

lemma print_x:
  assumes "ast_parse H ''x'' = Inr (Name ''x'')"
    and "\<not> in_block s"
    and "variables s ''x'' = Some (IntV i)"
  shows "interpret_line H (Suc n) ''print x'' k s =
     Some (Done (s\<lparr>stdout := stdout s @ str_of_int i @ [CHR 0x0A]\<rparr>))"
  using assms
  by (simp add: interp_statement statement_def stmt_print_def str_simps asteval_def)

lemma let_x:
  assumes "ast_parse H ''x + 1'' = Inr (BinOp (Name ''x'') Add (Constant (IntV 1)))"
    and "\<not> in_block s"
    and "variables s ''x'' = Some (IntV i)"
  shows "interpret_line H (Suc n) ''let x = x + 1'' k s =
     Some (Done (s\<lparr>variables := (variables s)(''x'' \<mapsto> IntV (i + 1))\<rparr>))"
  using assms
  by (simp add: interp_statement statement_def stmt_let_def str_simps asteval_def
      py_add_def numeral_2_eq_2)

lemma count_body:
  assumes "ast_parse H ''x'' = Inr (Name ''x'')"
    and "ast_parse H ''x + 1'' = Inr (BinOp (Name ''x'') Add (Constant (IntV 1)))"
    and "block_lines s = [''print x'', ''let x = x + 1'']"
    and "\<not> in_block s"
    and "variables s ''x'' = Some (IntV i)"
  shows "for_while H (Suc (Suc (Suc n))) k 0 s =
     Some (Done (s\<lparr>variables := (variables s)(''x'' \<mapsto> IntV (i + 1)),
                   stdout := stdout s @ str_of_int i @ [CHR 0x0A]\<rparr>))"
proof -
  let ?s1 = "s\<lparr>stdout := stdout s @ str_of_int i @ [CHR 0x0A]\<rparr>"
  let ?s2 = "?s1\<lparr>variables := (variables ?s1)(''x'' \<mapsto> IntV (i + 1))\<rparr>"
  have 1: "interpret_line H (Suc (Suc n)) ''print x'' k s = Some (Done ?s1)"
    using assms(1,4,5) by (rule print_x)
  have 2: "interpret_line H (Suc n) ''let x = x + 1'' k ?s1 = Some (Done ?s2)"
    using assms(2,4,5) by (intro let_x) simp_all
  have 3: "for_while H (Suc n) k (Suc (Suc 0)) ?s2 = Some (Done ?s2)"
    using assms(3) by (simp add: for_while_Suc)
  have "for_while H (Suc (Suc n)) k (Suc 0) ?s1 = Some (Done ?s2)"
    using assms(3) 2 3 by (subst for_while_Suc) simp
  then have "for_while H (Suc (Suc (Suc n))) k 0 s = Some (Done ?s2)"
    using assms(3) 1 by (subst for_while_Suc) simp
  then show ?thesis by simp
qed

lemma count_iter:
  assumes "ast_parse H ''x < 3'' = Inr (Compare (Name ''x'') [Lt] [Constant (IntV 3)])"
    and "ast_parse H ''x'' = Inr (Name ''x'')"
    and "ast_parse H ''x + 1'' = Inr (BinOp (Name ''x'') Add (Constant (IntV 1)))"
    and "block_lines s = [''print x'', ''let x = x + 1'']"
    and "\<not> in_block s"
    and "while_condition s = ''x < 3''"
    and "variables s ''x'' = Some (IntV i)"
    and "i < 3"
  shows "while_loop H (Suc (Suc (Suc (Suc n)))) k s =
     while_loop H (Suc (Suc (Suc n))) k
       (s\<lparr>variables := (variables s)(''x'' \<mapsto> IntV (i + 1)),
          stdout := stdout s @ str_of_int i @ [CHR 0x0A]\<rparr>)"
  using count_condition [of H "variables s" i, OF assms(1,7)]
    count_body [OF assms(2,3,4,5,7), of n k] assms(6,8)
  by (subst while_loop_Suc) simp

lemma count_exit:
  assumes "ast_parse H ''x < 3'' = Inr (Compare (Name ''x'') [Lt] [Constant (IntV 3)])"
    and "while_condition s = ''x < 3''"
    and "variables s ''x'' = Some (IntV 3)"
  shows "while_loop H (Suc n) k s = Some (Done s)"
  using count_condition [of H "variables s" 3, OF assms(1,3)] assms(2)
  by (subst while_loop_Suc) simp

section \<open>Statements that open no block\<close>

lemma raise_control [simp]:
  "in_block (raiseException t l k s) = in_block s"
  "block_type (raiseException t l k s) = block_type s"
  "block_lines (raiseException t l k s) = block_lines s"
  "current_condition (raiseException t l k s) = current_condition s"
  "executed_a_branch (raiseException t l k s) = executed_a_branch s"
  "while_condition (raiseException t l k s) = while_condition s"
  by (simp_all add: raiseException_def)

lemma let_control:
  "in_block (stmt_let H line k s) = in_block s
   \<and> block_type (stmt_let H line k s) = block_type s
   \<and> block_lines (stmt_let H line k s) = block_lines s
   \<and> current_condition (stmt_let H line k s) = current_condition s
   \<and> executed_a_branch (stmt_let H line k s) = executed_a_branch s
   \<and> while_condition (stmt_let H line k s) = while_condition s"
  by (simp add: stmt_let_def Let_def split: prod.splits sum.splits)

lemma print_control:
  "in_block (stmt_print H line k s) = in_block s
   \<and> block_type (stmt_print H line k s) = block_type s
   \<and> block_lines (stmt_print H line k s) = block_lines s
   \<and> current_condition (stmt_print H line k s) = current_condition s
   \<and> executed_a_branch (stmt_print H line k s) = executed_a_branch s
   \<and> while_condition (stmt_print H line k s) = while_condition s"
  by (simp add: stmt_print_def Let_def split: prod.splits sum.splits)

lemma input_control:
  "in_block (stmt_input H line k s) = in_block s
   \<and> block_type (stmt_input H line k s) = block_type s
   \<and> block_lines (stmt_input H line k s) = block_lines s
   \<and> current_condition (stmt_input H line k s) = current_condition s
   \<and> executed_a_branch (stmt_input H line k s) = executed_a_branch s
   \<and> while_condition (stmt_input H line k s) = while_condition s"
  by (simp add: stmt_input_def Let_def split: list.splits option.splits)

lemma statement_control:
  assumes "\<not> opens_block line"
  shows "in_block (statement H line k s) = in_block s
   \<and> block_type (statement H line k s) = block_type s
   \<and> block_lines (statement H line k s) = block_lines s
   \<and> current_condition (statement H line k s) = current_condition s
   \<and> executed_a_branch (statement H line k s) = executed_a_branch s
   \<and> while_condition (statement H line k s) = while_condition s"
proof (cases "split_ws (strip line)")
  case Nil
  then show ?thesis by (simp add: statement_def)
next
  case (Cons keyword toks)
  with assms have "keyword \<noteq> ''if''" "keyword \<noteq> ''elif''" "keyword \<noteq> ''else''"
    "keyword \<noteq> ''while''"
    by (simp_all add: opens_block_def)
  with Cons show ?thesis
    using let_control [of H line k s] print_control [of H line k s] input_control [of H line k s]
    by (simp add: statement_def)
qed

lemma run_body_Nil [simp]: "run_body H [] k s = s"
  by (simp add: run_body_def)

lemma run_body_Cons [simp]:
  "run_body H (line # rest) k s = run_body H rest k (statement H line k s)"
  by (simp add: run_body_def)

section \<open>The replay of a \<open>while\<close> body up to a \<open>break\<close>\<close>

lemma interp_replay_step:
  "line \<noteq> ''}'' \<Longrightarrow>
   interpret_line H (Suc n) line k s = Some (Done (replay_step H k s line))"
  by (simp add: replay_step_def interp_statement interp_collect)

lemma statement_block_lines: "block_lines (statement H line k s) = block_lines s"
proof -
  have "block_lines (stmt_let H line k s) = block_lines s"
    by (simp add: stmt_let_def Let_def split: prod.splits sum.splits)
  moreover have "block_lines (stmt_print H line k s) = block_lines s"
    by (simp add: stmt_print_def Let_def split: prod.splits sum.splits)
  moreover have "block_lines (stmt_if H kw line k s) = block_lines s" for kw
    by (simp add: stmt_if_def Let_def split: prod.splits sum.splits)
  moreover have "block_lines (stmt_else line k s) = block_lines s"
    by (simp add: stmt_else_def Let_def)
  moreover have "block_lines (stmt_while line k s) = block_lines s"
    by (simp add: stmt_while_def Let_def)
  moreover have "block_lines (stmt_input H line k s) = block_lines s"
    by (simp add: stmt_input_def Let_def split: list.splits option.splits)
  ultimately show ?thesis
    by (simp add: statement_def split: list.splits)
qed

lemma replay_step_block_lines:
  "\<exists>ext. block_lines (replay_step H k s line) = block_lines s @ ext"
  by (simp add: replay_step_def statement_block_lines)

lemma for_while_reaches_break:
  assumes "block_lines s = pre @ ''break'' # post"
    and "i \<le> length pre"
    and "''break'' \<notin> set (drop i pre)"
    and "''}'' \<notin> set (drop i pre)"
  shows "for_while H (Suc (length pre - i + n)) k i s =
         Some (Break (foldl (replay_step H k) s (drop i pre)))"
  using assms
proof (induction "length pre - i" arbitrary: i s post)
  case 0
  then have i: "i = length pre" by simp
  with "0.prems"(1) show ?case by (simp add: for_while_Suc nth_append)
next
  case (Suc m)
  then have lt: "i < length pre" by simp
  let ?l = "pre ! i"
  let ?s' = "replay_step H k s ?l"
  from lt have dr: "drop i pre = ?l # drop (Suc i) pre" by (simp add: Cons_nth_drop_Suc)
  with Suc.prems(3,4) have nb: "?l \<noteq> ''break''" and nc: "?l \<noteq> ''}''"
    and rest: "''break'' \<notin> set (drop (Suc i) pre)" "''}'' \<notin> set (drop (Suc i) pre)"
    by auto
  from replay_step_block_lines [of H k s ?l] Suc.prems(1)
  obtain ext where bl: "block_lines ?s' = pre @ ''break'' # (post @ ext)"
    by auto
  from Suc.hyps(2) lt have m: "m = length pre - Suc i" by simp
  have IH: "for_while H (Suc (length pre - Suc i + n)) k (Suc i) ?s' =
      Some (Break (foldl (replay_step H k) ?s' (drop (Suc i) pre)))"
    using Suc.hyps(1) [OF m bl _ rest] lt by simp
  have fuel: "length pre - i + n = Suc (length pre - Suc i + n)"
    using lt by simp
  have line: "block_lines s ! i = ?l" "i < length (block_lines s)"
    using Suc.prems(1) lt by (simp_all add: nth_append)
  have step: "interpret_line H (Suc (length pre - Suc i + n)) ?l k s = Some (Done ?s')"
    using nc by (rule interp_replay_step)
  show ?case
    unfolding fuel
    using line nb step IH dr by (subst for_while_Suc) simp
qed

section \<open>Replaying a body of statements\<close>

text \<open>
  A statement that opens no block reads and writes the environment, the streams and the
  exception log only: it commutes with any change of the block state, and it leaves the
  block state as it is.  So the replay of a body of such statements is \<open>run_body\<close>.
\<close>

lemma raise_commute:
  "raiseException t l k (s\<lparr>in_block := a\<rparr>) = (raiseException t l k s)\<lparr>in_block := a\<rparr>"
  "raiseException t l k (s\<lparr>block_type := b\<rparr>) = (raiseException t l k s)\<lparr>block_type := b\<rparr>"
  "raiseException t l k (s\<lparr>block_lines := c\<rparr>) = (raiseException t l k s)\<lparr>block_lines := c\<rparr>"
  "raiseException t l k (s\<lparr>current_condition := d\<rparr>) =
     (raiseException t l k s)\<lparr>current_condition := d\<rparr>"
  "raiseException t l k (s\<lparr>executed_a_branch := e\<rparr>) =
     (raiseException t l k s)\<lparr>executed_a_branch := e\<rparr>"
  by (simp_all add: raiseException_def)

lemma let_commute:
  "stmt_let H l k (s\<lparr>in_block := a\<rparr>) = (stmt_let H l k s)\<lparr>in_block := a\<rparr>"
  "stmt_let H l k (s\<lparr>block_type := b\<rparr>) = (stmt_let H l k s)\<lparr>block_type := b\<rparr>"
  "stmt_let H l k (s\<lparr>block_lines := c\<rparr>) = (stmt_let H l k s)\<lparr>block_lines := c\<rparr>"
  "stmt_let H l k (s\<lparr>current_condition := d\<rparr>) = (stmt_let H l k s)\<lparr>current_condition := d\<rparr>"
  "stmt_let H l k (s\<lparr>executed_a_branch := e\<rparr>) = (stmt_let H l k s)\<lparr>executed_a_branch := e\<rparr>"
  by (simp_all add: stmt_let_def Let_def raiseException_def split: prod.splits sum.splits)

lemma print_commute:
  "stmt_print H l k (s\<lparr>in_block := a\<rparr>) = (stmt_print H l k s)\<lparr>in_block := a\<rparr>"
  "stmt_print H l k (s\<lparr>block_type := b\<rparr>) = (stmt_print H l k s)\<lparr>block_type := b\<rparr>"
  "stmt_print H l k (s\<lparr>block_lines := c\<rparr>) = (stmt_print H l k s)\<lparr>block_lines := c\<rparr>"
  "stmt_print H l k (s\<lparr>current_condition := d\<rparr>) =
     (stmt_print H l k s)\<lparr>current_condition := d\<rparr>"
  "stmt_print H l k (s\<lparr>executed_a_branch := e\<rparr>) =
     (stmt_print H l k s)\<lparr>executed_a_branch := e\<rparr>"
  by (simp_all add: stmt_print_def Let_def raiseException_def split: prod.splits sum.splits)

lemma input_commute:
  "stmt_input H l k (s\<lparr>in_block := a\<rparr>) = (stmt_input H l k s)\<lparr>in_block := a\<rparr>"
  "stmt_input H l k (s\<lparr>block_type := b\<rparr>) = (stmt_input H l k s)\<lparr>block_type := b\<rparr>"
  "stmt_input H l k (s\<lparr>block_lines := c\<rparr>) = (stmt_input H l k s)\<lparr>block_lines := c\<rparr>"
  "stmt_input H l k (s\<lparr>current_condition := d\<rparr>) =
     (stmt_input H l k s)\<lparr>current_condition := d\<rparr>"
  "stmt_input H l k (s\<lparr>executed_a_branch := e\<rparr>) =
     (stmt_input H l k s)\<lparr>executed_a_branch := e\<rparr>"
  by (simp_all add: stmt_input_def Let_def raiseException_def split: list.splits option.splits)

lemma statement_commute:
  assumes "\<not> opens_block l"
  shows "statement H l k (s\<lparr>in_block := a\<rparr>) = (statement H l k s)\<lparr>in_block := a\<rparr>"
    and "statement H l k (s\<lparr>block_type := b\<rparr>) = (statement H l k s)\<lparr>block_type := b\<rparr>"
    and "statement H l k (s\<lparr>block_lines := c\<rparr>) = (statement H l k s)\<lparr>block_lines := c\<rparr>"
    and "statement H l k (s\<lparr>current_condition := d\<rparr>) =
           (statement H l k s)\<lparr>current_condition := d\<rparr>"
    and "statement H l k (s\<lparr>executed_a_branch := e\<rparr>) =
           (statement H l k s)\<lparr>executed_a_branch := e\<rparr>"
proof -
  show "statement H l k (s\<lparr>in_block := a\<rparr>) = (statement H l k s)\<lparr>in_block := a\<rparr>"
    using assms
    by (auto simp: statement_def opens_block_def let_commute print_commute input_commute
        raise_commute split: list.splits)
  show "statement H l k (s\<lparr>block_type := b\<rparr>) = (statement H l k s)\<lparr>block_type := b\<rparr>"
    using assms
    by (auto simp: statement_def opens_block_def let_commute print_commute input_commute
        raise_commute split: list.splits)
  show "statement H l k (s\<lparr>block_lines := c\<rparr>) = (statement H l k s)\<lparr>block_lines := c\<rparr>"
    using assms
    by (auto simp: statement_def opens_block_def let_commute print_commute input_commute
        raise_commute split: list.splits)
  show "statement H l k (s\<lparr>current_condition := d\<rparr>) =
           (statement H l k s)\<lparr>current_condition := d\<rparr>"
    using assms
    by (auto simp: statement_def opens_block_def let_commute print_commute input_commute
        raise_commute split: list.splits)
  show "statement H l k (s\<lparr>executed_a_branch := e\<rparr>) =
           (statement H l k s)\<lparr>executed_a_branch := e\<rparr>"
    using assms
    by (auto simp: statement_def opens_block_def let_commute print_commute input_commute
        raise_commute split: list.splits)
qed

lemma run_body_commute:
  assumes "\<forall>l \<in> set ls. \<not> opens_block l"
  shows "run_body H ls k (s\<lparr>in_block := a\<rparr>) = (run_body H ls k s)\<lparr>in_block := a\<rparr>"
    and "run_body H ls k (s\<lparr>block_type := b\<rparr>) = (run_body H ls k s)\<lparr>block_type := b\<rparr>"
    and "run_body H ls k (s\<lparr>block_lines := c\<rparr>) = (run_body H ls k s)\<lparr>block_lines := c\<rparr>"
    and "run_body H ls k (s\<lparr>current_condition := d\<rparr>) =
           (run_body H ls k s)\<lparr>current_condition := d\<rparr>"
    and "run_body H ls k (s\<lparr>executed_a_branch := e\<rparr>) =
           (run_body H ls k s)\<lparr>executed_a_branch := e\<rparr>"
  using assms
  by (induction ls arbitrary: s; simp add: statement_commute)+

lemma run_body_control:
  assumes "\<forall>l \<in> set ls. \<not> opens_block l"
  shows "in_block (run_body H ls k s) = in_block s
   \<and> block_type (run_body H ls k s) = block_type s
   \<and> block_lines (run_body H ls k s) = block_lines s
   \<and> current_condition (run_body H ls k s) = current_condition s
   \<and> executed_a_branch (run_body H ls k s) = executed_a_branch s
   \<and> while_condition (run_body H ls k s) = while_condition s"
  using assms
proof (induction ls arbitrary: s)
  case Nil
  show ?case by simp
next
  case (Cons l ls)
  then have "\<not> opens_block l" and "\<forall>l \<in> set ls. \<not> opens_block l" by simp_all
  with Cons.IH [of "statement H l k s"] statement_control [of l H k s] show ?case by simp
qed

lemma for_lines_flat:
  assumes "block_lines s = body"
    and "\<not> in_block s"
    and "i \<le> length body"
    and "\<forall>l \<in> set (drop i body). \<not> opens_block l"
  shows "for_lines H (Suc (length body - i + n)) k i s = Some (Done (run_body H (drop i body) k s))"
  using assms
proof (induction "length body - i" arbitrary: i s)
  case 0
  then have i: "i = length body" by simp
  with "0.prems"(1) show ?case by (simp add: for_lines_Suc)
next
  case (Suc m)
  then have lt: "i < length body" by simp
  let ?l = "body ! i"
  let ?s' = "statement H ?l k s"
  from lt have dr: "drop i body = ?l # drop (Suc i) body" by (simp add: Cons_nth_drop_Suc)
  with Suc.prems(4) have flat: "\<not> opens_block ?l"
    and rest: "\<forall>l \<in> set (drop (Suc i) body). \<not> opens_block l"
    by simp_all
  from statement_control [OF flat, of H k s] Suc.prems(1,2)
  have bl: "block_lines ?s' = body" and ib: "\<not> in_block ?s'"
    by simp_all
  from Suc.hyps(2) lt have m: "m = length body - Suc i" by simp
  have IH: "for_lines H (Suc (length body - Suc i + n)) k (Suc i) ?s' =
      Some (Done (run_body H (drop (Suc i) body) k ?s'))"
    using Suc.hyps(1) [OF m bl ib _ rest] lt by simp
  have fuel: "length body - i + n = Suc (length body - Suc i + n)"
    using lt by simp
  have line: "block_lines s ! i = ?l" "i < length (block_lines s)"
    using Suc.prems(1) lt by simp_all
  have step: "interpret_line H (Suc (length body - Suc i + n)) ?l k s = Some (Done ?s')"
    using Suc.prems(2) by (simp add: interp_statement)
  show ?case
    unfolding fuel
    using line step IH dr by (subst for_lines_Suc) simp
qed

lemma collect_lines:
  assumes "in_block s"
    and "\<forall>a \<in> set A. strip a = a \<and> a \<noteq> ''}''"
  shows "run_lines H (Suc n) (A @ rest) k s =
         run_lines H (Suc n) rest (k + length A) (s\<lparr>block_lines := block_lines s @ A\<rparr>)"
  using assms
proof (induction A arbitrary: k s)
  case Nil
  then show ?case by simp
next
  case (Cons a A)
  then have a: "strip a = a" "a \<noteq> ''}''" and A: "\<forall>a \<in> set A. strip a = a \<and> a \<noteq> ''}''"
    by simp_all
  let ?s' = "s\<lparr>block_lines := block_lines s @ [a]\<rparr>"
  have "interpret_line H (Suc n) (strip a) k s = Some (Done ?s')"
    using a Cons.prems(1) by (simp add: interp_collect)
  moreover have "run_lines H (Suc n) (A @ rest) (Suc k) ?s' =
      run_lines H (Suc n) rest (Suc k + length A) (?s'\<lparr>block_lines := block_lines ?s' @ A\<rparr>)"
    using Cons.prems(1) A by (intro Cons.IH) simp_all
  ultimately show ?case by simp
qed

section \<open>One block at top level\<close>

lemma open_cond:
  assumes "\<not> in_block s"
    and "split_ws (strip l) = keyword # toks"
    and "keyword = ''if'' \<or> keyword = ''elif''"
    and "endswith (strip (drop (length keyword) l)) ''{''"
    and "fst (asteval H (strip (butlast (strip (drop (length keyword) l)))) (variables s)) = Inr v"
    and "1 \<le> n"
  shows "interpret_line H n l k s =
     Some (Done (s\<lparr>in_block := True, block_type := Some keyword, current_condition := v\<rparr>))"
proof -
  let ?c = "strip (butlast (strip (drop (length keyword) l)))"
  have "asteval H ?c (variables s) = (Inr v, variables s)"
    using assms(5) asteval_pair [of H ?c "variables s"] by simp
  with assms(1-4) have "interpret_line H (Suc 0) l k s =
     Some (Done (s\<lparr>in_block := True, block_type := Some keyword, current_condition := v\<rparr>))"
    by (auto simp: interp_statement statement_def stmt_if_def)
  moreover have "Suc 0 \<le> n" using assms(6) by simp
  ultimately show ?thesis by (rule interpret_line_mono [rotated])
qed

lemma open_else:
  assumes "\<not> in_block s"
    and "split_ws (strip l) = ''else'' # toks"
    and "strip (drop (length ''else'') l) = ''{''"
    and "1 \<le> n"
  shows "interpret_line H n l k s =
     Some (Done (s\<lparr>in_block := True, block_type := Some ''else''\<rparr>))"
proof -
  from assms(1-3) have "interpret_line H (Suc 0) l k s =
     Some (Done (s\<lparr>in_block := True, block_type := Some ''else''\<rparr>))"
    by (simp add: interp_statement statement_def stmt_else_def)
  moreover have "Suc 0 \<le> n" using assms(4) by simp
  ultimately show ?thesis by (rule interpret_line_mono [rotated])
qed

lemma close_cond:
  assumes "in_block s"
    and "block_type s = Some ''if'' \<or> block_type s = Some ''elif''"
    and "truthy H (current_condition s) \<and> \<not> executed_a_branch s \<longrightarrow>
         (\<forall>l \<in> set (block_lines s). \<not> opens_block l)"
    and "length (block_lines s) + 2 \<le> n"
  shows "interpret_line H n ''}'' k s =
     Some (Done (if truthy H (current_condition s) \<and> \<not> executed_a_branch s
                 then (run_body H (block_lines s) k s)\<lparr>in_block := False,
                        executed_a_branch := True, block_lines := [], block_type := None\<rparr>
                 else s\<lparr>in_block := False, block_lines := [], block_type := None\<rparr>))"
proof -
  note eq = interp_close_if [OF assms(1,2), of H "Suc (length (block_lines s))" k]
  have "interpret_line H (Suc (Suc (length (block_lines s)))) ''}'' k s =
     Some (Done (if truthy H (current_condition s) \<and> \<not> executed_a_branch s
                 then (run_body H (block_lines s) k s)\<lparr>in_block := False,
                        executed_a_branch := True, block_lines := [], block_type := None\<rparr>
                 else s\<lparr>in_block := False, block_lines := [], block_type := None\<rparr>))"
  proof (cases "truthy H (current_condition s) \<and> \<not> executed_a_branch s")
    case True
    with assms(3) have flat: "\<forall>l \<in> set (block_lines s). \<not> opens_block l" by simp
    let ?s1 = "s\<lparr>in_block := False\<rparr>"
    have "for_lines H (Suc (length (block_lines s) - 0 + 0)) k 0 ?s1 =
        Some (Done (run_body H (drop 0 (block_lines s)) k ?s1))"
      using flat by (intro for_lines_flat) simp_all
    then have "for_lines H (Suc (length (block_lines s))) k 0 ?s1 =
        Some (Done ((run_body H (block_lines s) k s)\<lparr>in_block := False\<rparr>))"
      using flat by (simp add: run_body_commute)
    with True show ?thesis unfolding eq by simp
  next
    case False
    show ?thesis unfolding eq by (simp only: False if_False)
  qed
  moreover have "Suc (Suc (length (block_lines s))) \<le> n" using assms(4) by simp
  ultimately show ?thesis by (rule interpret_line_mono [rotated])
qed

lemma close_else:
  assumes "in_block s"
    and "block_type s = Some ''else''"
    and "\<not> executed_a_branch s \<longrightarrow> (\<forall>l \<in> set (block_lines s). \<not> opens_block l)"
    and "length (block_lines s) + 2 \<le> n"
  shows "interpret_line H n ''}'' k s =
     Some (Done (if \<not> executed_a_branch s
                 then (run_body H (block_lines s) k s)\<lparr>in_block := False,
                        executed_a_branch := False, block_lines := [], block_type := None\<rparr>
                 else s\<lparr>in_block := False, executed_a_branch := False,
                        block_lines := [], block_type := None\<rparr>))"
proof -
  note eq = interp_close_else [OF assms(1,2), of H "Suc (length (block_lines s))" k]
  have "interpret_line H (Suc (Suc (length (block_lines s)))) ''}'' k s =
     Some (Done (if \<not> executed_a_branch s
                 then (run_body H (block_lines s) k s)\<lparr>in_block := False,
                        executed_a_branch := False, block_lines := [], block_type := None\<rparr>
                 else s\<lparr>in_block := False, executed_a_branch := False,
                        block_lines := [], block_type := None\<rparr>))"
  proof (cases "executed_a_branch s")
    case False
    with assms(3) have flat: "\<forall>l \<in> set (block_lines s). \<not> opens_block l" by simp
    let ?s1 = "s\<lparr>in_block := False\<rparr>"
    have "for_lines H (Suc (length (block_lines s) - 0 + 0)) k 0 ?s1 =
        Some (Done (run_body H (drop 0 (block_lines s)) k ?s1))"
      using flat by (intro for_lines_flat) simp_all
    then have "for_lines H (Suc (length (block_lines s))) k 0 ?s1 =
        Some (Done ((run_body H (block_lines s) k s)\<lparr>in_block := False\<rparr>))"
      using flat by (simp add: run_body_commute)
    with False show ?thesis unfolding eq by simp
  next
    case True
    then show ?thesis unfolding eq by simp
  qed
  moreover have "Suc (Suc (length (block_lines s))) \<le> n" using assms(4) by simp
  ultimately show ?thesis by (rule interpret_line_mono [rotated])
qed

text \<open>
  One block at top level: its opening line, its body, the closing brace.  The opening
  line does not empty the buffer, so the body is collected behind the lines that the
  buffer holds already.
\<close>

lemma run_block:
  assumes "interpret_line H n (strip l) k s = Some (Done s1)"
    and "in_block s1"
    and "\<forall>a \<in> set A. strip a = a \<and> a \<noteq> ''}''"
    and "interpret_line H n ''}'' (Suc (k + length A)) (s1\<lparr>block_lines := block_lines s1 @ A\<rparr>)
          = Some (Done s2)"
    and "1 \<le> n"
  shows "run_lines H n (l # A @ ''}'' # rest) k s =
         run_lines H n rest (Suc (Suc (k + length A))) s2"
proof -
  from assms(5) obtain m where n: "n = Suc m" by (cases n) simp_all
  have "run_lines H n (l # A @ ''}'' # rest) k s = run_lines H n (A @ ''}'' # rest) (Suc k) s1"
    using assms(1) by simp
  also have "\<dots> = run_lines H n (''}'' # rest) (Suc k + length A)
      (s1\<lparr>block_lines := block_lines s1 @ A\<rparr>)"
    using collect_lines [OF assms(2,3), of H m "''}'' # rest" "Suc k"] n by simp
  also have "\<dots> = run_lines H n rest (Suc (Suc (k + length A))) s2"
    using assms(4) by (simp add: str_simps)
  finally show ?thesis .
qed

lemma cond_block:
  assumes "\<not> in_block s"
    and "truthy H v \<and> \<not> executed_a_branch s \<longrightarrow>
         (\<forall>a \<in> set (block_lines s). \<not> opens_block a)"
    and "strip l = l"
    and "split_ws (strip l) = keyword # toks"
    and "keyword = ''if'' \<or> keyword = ''elif''"
    and "endswith (strip (drop (length keyword) l)) ''{''"
    and "fst (asteval H (strip (butlast (strip (drop (length keyword) l)))) (variables s)) = Inr v"
    and "\<forall>a \<in> set A. strip a = a \<and> a \<noteq> ''}'' \<and> \<not> opens_block a"
    and "length (block_lines s) + length A + 2 \<le> n"
  shows "run_lines H n (l # A @ ''}'' # rest) k s =
         run_lines H n rest (Suc (Suc (k + length A)))
           (if truthy H v \<and> \<not> executed_a_branch s
            then (run_body H (block_lines s @ A) (Suc (k + length A)) s)\<lparr>in_block := False,
                    block_type := None, block_lines := [], current_condition := v,
                    executed_a_branch := True\<rparr>
            else s\<lparr>in_block := False, block_type := None, block_lines := [],
                    current_condition := v\<rparr>)"
proof -
  let ?s1 = "s\<lparr>in_block := True, block_type := Some keyword, current_condition := v\<rparr>"
  let ?body = "block_lines s @ A"
  have flat: "truthy H v \<and> \<not> executed_a_branch s \<longrightarrow> (\<forall>a \<in> set ?body. \<not> opens_block a)"
    and raw: "\<forall>a \<in> set A. strip a = a \<and> a \<noteq> ''}''"
    using assms(2,8) by auto
  have n1: "1 \<le> n" using assms(9) by simp
  have o: "interpret_line H n (strip l) k s = Some (Done ?s1)"
    unfolding assms(3) using assms(1,4,5,6,7) n1 by (rule open_cond)
  have c: "interpret_line H n ''}'' (Suc (k + length A))
        (?s1\<lparr>block_lines := block_lines ?s1 @ A\<rparr>) =
      Some (Done (if truthy H v \<and> \<not> executed_a_branch s
            then (run_body H ?body (Suc (k + length A)) s)\<lparr>in_block := False,
                    block_type := None, block_lines := [], current_condition := v,
                    executed_a_branch := True\<rparr>
            else s\<lparr>in_block := False, block_type := None, block_lines := [],
                    current_condition := v\<rparr>))"
  proof (cases "truthy H v \<and> \<not> executed_a_branch s")
    case True
    with flat have f: "\<forall>a \<in> set ?body. \<not> opens_block a" by simp
    show ?thesis
      using close_cond [where s = "?s1\<lparr>block_lines := ?body\<rparr>" and H = H and n = n
          and k = "Suc (k + length A)"]
        assms(5,9) f True
      by (simp add: run_body_commute)
  next
    case False
    show ?thesis
      using close_cond [where s = "?s1\<lparr>block_lines := ?body\<rparr>" and H = H and n = n
          and k = "Suc (k + length A)"]
        assms(5,9) False
      by auto
  qed
  show ?thesis
    using o _ raw c n1 by (rule run_block) simp
qed

lemma else_block:
  assumes "\<not> in_block s"
    and "\<not> executed_a_branch s \<longrightarrow> (\<forall>a \<in> set (block_lines s). \<not> opens_block a)"
    and "strip l = l"
    and "split_ws (strip l) = ''else'' # toks"
    and "strip (drop (length ''else'') l) = ''{''"
    and "\<forall>a \<in> set A. strip a = a \<and> a \<noteq> ''}'' \<and> \<not> opens_block a"
    and "length (block_lines s) + length A + 2 \<le> n"
  shows "run_lines H n (l # A @ ''}'' # rest) k s =
         run_lines H n rest (Suc (Suc (k + length A)))
           (if \<not> executed_a_branch s
            then (run_body H (block_lines s @ A) (Suc (k + length A)) s)\<lparr>in_block := False,
                    block_type := None, block_lines := [], executed_a_branch := False\<rparr>
            else s\<lparr>in_block := False, block_type := None, block_lines := [],
                    executed_a_branch := False\<rparr>)"
proof -
  let ?s1 = "s\<lparr>in_block := True, block_type := Some ''else''\<rparr>"
  let ?body = "block_lines s @ A"
  have flat: "\<not> executed_a_branch s \<longrightarrow> (\<forall>a \<in> set ?body. \<not> opens_block a)"
    and raw: "\<forall>a \<in> set A. strip a = a \<and> a \<noteq> ''}''"
    using assms(2,6) by auto
  have n1: "1 \<le> n" using assms(7) by simp
  have o: "interpret_line H n (strip l) k s = Some (Done ?s1)"
    unfolding assms(3) using assms(1,4,5) n1 by (rule open_else)
  have c: "interpret_line H n ''}'' (Suc (k + length A))
        (?s1\<lparr>block_lines := block_lines ?s1 @ A\<rparr>) =
      Some (Done (if \<not> executed_a_branch s
            then (run_body H ?body (Suc (k + length A)) s)\<lparr>in_block := False,
                    block_type := None, block_lines := [], executed_a_branch := False\<rparr>
            else s\<lparr>in_block := False, block_type := None, block_lines := [],
                    executed_a_branch := False\<rparr>))"
  proof (cases "executed_a_branch s")
    case False
    with flat have f: "\<forall>a \<in> set ?body. \<not> opens_block a" by simp
    show ?thesis
      using close_else [where s = "?s1\<lparr>block_lines := ?body\<rparr>" and H = H and n = n
          and k = "Suc (k + length A)"]
        assms(7) f False
      by (simp add: run_body_commute)
  next
    case True
    show ?thesis
      using close_else [where s = "?s1\<lparr>block_lines := ?body\<rparr>" and H = H and n = n
          and k = "Suc (k + length A)"]
        assms(7) True
      by auto
  qed
  show ?thesis
    using o _ raw c n1 by (rule run_block) simp
qed

text \<open>The same two blocks when the buffer is empty, as it is after any block that closed
  without \<open>break\<close>.\<close>

lemma cond_block_empty:
  assumes "\<not> in_block s"
    and "block_lines s = []"
    and "strip l = l"
    and "split_ws (strip l) = keyword # toks"
    and "keyword = ''if'' \<or> keyword = ''elif''"
    and "endswith (strip (drop (length keyword) l)) ''{''"
    and "fst (asteval H (strip (butlast (strip (drop (length keyword) l)))) (variables s)) = Inr v"
    and "\<forall>a \<in> set A. strip a = a \<and> a \<noteq> ''}'' \<and> \<not> opens_block a"
    and "length A + 2 \<le> n"
  shows "run_lines H n (l # A @ ''}'' # rest) k s =
         run_lines H n rest (Suc (Suc (k + length A)))
           (if truthy H v \<and> \<not> executed_a_branch s
            then (run_body H A (Suc (k + length A)) s)\<lparr>in_block := False, block_type := None,
                    block_lines := [], current_condition := v, executed_a_branch := True\<rparr>
            else s\<lparr>in_block := False, block_type := None, block_lines := [],
                    current_condition := v\<rparr>)"
proof -
  have st: "truthy H v \<and> \<not> executed_a_branch s \<longrightarrow>
      (\<forall>a \<in> set (block_lines s). \<not> opens_block a)"
    by (simp add: assms(2))
  have fu: "length (block_lines s) + length A + 2 \<le> n"
    using assms(2,9) by simp
  from cond_block [OF assms(1) st assms(3-8) fu, of rest k] show ?thesis
    by (simp only: assms(2) append_Nil)
qed

lemma else_block_empty:
  assumes "\<not> in_block s"
    and "block_lines s = []"
    and "strip l = l"
    and "split_ws (strip l) = ''else'' # toks"
    and "strip (drop (length ''else'') l) = ''{''"
    and "\<forall>a \<in> set A. strip a = a \<and> a \<noteq> ''}'' \<and> \<not> opens_block a"
    and "length A + 2 \<le> n"
  shows "run_lines H n (l # A @ ''}'' # rest) k s =
         run_lines H n rest (Suc (Suc (k + length A)))
           (if \<not> executed_a_branch s
            then (run_body H A (Suc (k + length A)) s)\<lparr>in_block := False, block_type := None,
                    block_lines := [], executed_a_branch := False\<rparr>
            else s\<lparr>in_block := False, block_type := None, block_lines := [],
                    executed_a_branch := False\<rparr>)"
proof -
  have st: "\<not> executed_a_branch s \<longrightarrow> (\<forall>a \<in> set (block_lines s). \<not> opens_block a)"
    by (simp add: assms(2))
  have fu: "length (block_lines s) + length A + 2 \<le> n"
    using assms(2,7) by simp
  from else_block [OF assms(1) st assms(3-6) fu, of H rest k] show ?thesis
    by (simp only: assms(2) append_Nil)
qed

section \<open>Stripping a line twice\<close>

text \<open>
  \<open>run_minipy\<close> strips every line before it interprets it, so a program and the list of
  its stripped lines run alike.
\<close>

lemma strip_idem: "strip (strip s) = strip s"
proof -
  let ?t = "dropWhile isspace s"
  let ?u = "rev (dropWhile isspace (rev ?t))"
  have u: "strip s = ?u" by (simp add: strip_def)
  have front: "dropWhile isspace ?u = ?u"
  proof (cases "?u = []")
    case True
    show ?thesis by (simp only: True dropWhile.simps)
  next
    case False
    have "?t = ?u @ rev (takeWhile isspace (rev ?t))"
      by (metis rev_append rev_rev_ident takeWhile_dropWhile_id)
    with False have "hd ?u = hd ?t" and "?t \<noteq> []"
      by (metis hd_append2, metis append_is_Nil_conv)
    then have "\<not> isspace (hd ?u)"
      using hd_dropWhile [of isspace s] by simp
    with False show ?thesis
      by (cases ?u) simp_all
  qed
  have "strip ?u = rev (dropWhile isspace (rev (dropWhile isspace ?u)))"
    by (simp only: strip_def)
  also have "\<dots> = rev (dropWhile isspace (rev ?u))"
    by (simp only: front)
  also have "\<dots> = ?u"
    by simp
  finally show ?thesis
    by (simp only: u)
qed

lemma run_lines_strip: "run_lines H n (map strip ls) k s = run_lines H n ls k s"
  by (induction ls arbitrary: k s)
    (simp_all add: strip_idem split: option.splits outcome.splits)

section \<open>A chain of three blocks\<close>

text \<open>
  The chain \<open>if\<close>, \<open>elif\<close>, \<open>else\<close> for lines that are stripped already: three blocks in
  a row, by cases on the flag at the start and on the two conditions.  The first block is
  collected behind the lines that the buffer holds at the start; the buffer is empty for
  the two blocks after it.
\<close>

lemma chain_of_stripped_lines:
  assumes s0: "\<not> in_block s0"
    and stale: "truthy H v1 \<and> \<not> executed_a_branch s0 \<longrightarrow>
         (\<forall>a \<in> set (block_lines s0). \<not> opens_block a)"
    and l1: "strip l1 = l1" "split_ws (strip l1) = ''if'' # t1"
      "endswith (strip (drop (length ''if'') l1)) ''{''"
    and l2: "strip l2 = l2" "split_ws (strip l2) = ''elif'' # t2"
      "endswith (strip (drop (length ''elif'') l2)) ''{''"
    and l3: "strip l3 = l3" "split_ws (strip l3) = ''else'' # t3"
      "strip (drop (length ''else'') l3) = ''{''"
    and bodies: "\<forall>a \<in> set (A @ B @ C). strip a = a \<and> a \<noteq> ''}'' \<and> \<not> opens_block a"
    and k: "kA = k + length A + 1" "kB = kA + length B + 2" "kC = kB + length C + 2"
    and c1: "fst (asteval H (strip (butlast (strip (drop (length ''if'') l1)))) (variables s0))
              = Inr v1"
    and c2: "fst (asteval H (strip (butlast (strip (drop (length ''elif'') l2))))
                (variables (if truthy H v1 \<and> \<not> executed_a_branch s0
                            then run_body H (block_lines s0 @ A) kA s0 else s0))) = Inr v2"
    and fuel: "length (block_lines s0) + length A + length B + length C + 2 \<le> n"
  shows "run_lines H n (l1 # A @ ''}'' # l2 # B @ ''}'' # l3 # C @ [''}'']) k s0 =
         Some (Done ((if executed_a_branch s0 then s0
                      else if truthy H v1 then run_body H (block_lines s0 @ A) kA s0
                      else if truthy H v2 then run_body H B kB s0
                      else run_body H C kC s0)
                     \<lparr>in_block := False, block_type := None, block_lines := [],
                      current_condition := v2, executed_a_branch := False\<rparr>))"
proof -
  have bA: "\<forall>a \<in> set A. strip a = a \<and> a \<noteq> ''}'' \<and> \<not> opens_block a"
    and bB: "\<forall>a \<in> set B. strip a = a \<and> a \<noteq> ''}'' \<and> \<not> opens_block a"
    and bC: "\<forall>a \<in> set C. strip a = a \<and> a \<noteq> ''}'' \<and> \<not> opens_block a"
    using bodies by auto
  have fA: "\<forall>a \<in> set A. \<not> opens_block a" and fB: "\<forall>a \<in> set B. \<not> opens_block a"
    and fC: "\<forall>a \<in> set C. \<not> opens_block a"
    using bodies by auto
  have nA: "length (block_lines s0) + length A + 2 \<le> n"
    and nB: "length B + 2 \<le> n" and nC: "length C + 2 \<le> n"
    using fuel by simp_all
  have kA: "Suc (k + length A) = kA" and kB: "Suc (Suc kA + length B) = kB"
    and kC: "Suc (Suc kB + length C) = kC"
    using k by simp_all
  let ?rest1 = "l2 # B @ ''}'' # l3 # C @ [''}'']"
  let ?rest2 = "l3 # C @ [''}'']"
  let ?c2 = "strip (butlast (strip (drop (length ''elif'') l2)))"
  have if_kw: "''if'' = ''if'' \<or> ''if'' = ''elif''" and elif_kw: "''elif'' = ''if'' \<or> ''elif'' = ''elif''"
    by simp_all
  have r1: "run_lines H n (l1 # A @ ''}'' # ?rest1) k s0 =
      run_lines H n ?rest1 (Suc kA)
        (if truthy H v1 \<and> \<not> executed_a_branch s0
         then (run_body H (block_lines s0 @ A) kA s0)\<lparr>in_block := False, block_type := None,
                 block_lines := [], current_condition := v1, executed_a_branch := True\<rparr>
         else s0\<lparr>in_block := False, block_type := None, block_lines := [],
                 current_condition := v1\<rparr>)"
    using cond_block [OF s0 stale l1(1) l1(2) if_kw l1(3) c1 bA nA, of ?rest1 k]
    unfolding kA .
  have r2: "run_lines H n (l2 # B @ ''}'' # ?rest2) (Suc kA) s =
      run_lines H n ?rest2 (Suc kB)
        (if truthy H v2 \<and> \<not> executed_a_branch s
         then (run_body H B kB s)\<lparr>in_block := False, block_type := None,
                 block_lines := [], current_condition := v2, executed_a_branch := True\<rparr>
         else s\<lparr>in_block := False, block_type := None, block_lines := [],
                 current_condition := v2\<rparr>)"
    if "\<not> in_block s" and "block_lines s = []"
      and "fst (asteval H ?c2 (variables s)) = Inr v2" for s
    using cond_block_empty [OF that(1,2) l2(1) l2(2) elif_kw l2(3) that(3) bB nB, of ?rest2 "Suc kA"]
    unfolding kB .
  have r3: "run_lines H n (l3 # C @ [''}'']) (Suc kB) s =
      Some (Done (if \<not> executed_a_branch s
            then (run_body H C kC s)\<lparr>in_block := False, block_type := None,
                    block_lines := [], executed_a_branch := False\<rparr>
            else s\<lparr>in_block := False, block_type := None, block_lines := [],
                    executed_a_branch := False\<rparr>))"
    if "\<not> in_block s" and "block_lines s = []" for s
    using else_block_empty [OF that(1,2) l3(1) l3(2) l3(3) bC nC, of H "[]" "Suc kB"]
    unfolding kC by (simp only: run_lines.simps(1))
  let ?skip = "s0\<lparr>in_block := False, block_type := None, block_lines := [],
                    current_condition := v1\<rparr>"
  show ?thesis
  proof (cases "executed_a_branch s0")
    case flag: True
    let ?b = "?skip\<lparr>in_block := False, block_type := None, block_lines := [],
                 current_condition := v2\<rparr>"
    have 1: "run_lines H n (l1 # A @ ''}'' # ?rest1) k s0 = run_lines H n ?rest1 (Suc kA) ?skip"
      using r1 flag by (simp only: simp_thms if_False)
    have v: "fst (asteval H ?c2 (variables ?skip)) = Inr v2"
      using c2 flag by simp
    have 2: "run_lines H n ?rest1 (Suc kA) ?skip = run_lines H n ?rest2 (Suc kB) ?b"
      using r2 [of ?skip, OF _ _ v] flag by (simp del: run_lines.simps)
    have 3: "run_lines H n ?rest2 (Suc kB) ?b =
        Some (Done (?b\<lparr>in_block := False, block_type := None, block_lines := [],
                    executed_a_branch := False\<rparr>))"
      using r3 [of ?b] flag by (simp del: run_lines.simps)
    have "?b\<lparr>in_block := False, block_type := None, block_lines := [],
                    executed_a_branch := False\<rparr> =
       s0\<lparr>in_block := False, block_type := None, block_lines := [],
                      current_condition := v2, executed_a_branch := False\<rparr>"
      by simp
    with 1 2 3 flag show ?thesis by (simp only: if_True)
  next
    case flag: False
    show ?thesis
    proof (cases "truthy H v1")
      case True
      let ?a = "(run_body H (block_lines s0 @ A) kA s0)\<lparr>in_block := False, block_type := None,
                      block_lines := [], current_condition := v1, executed_a_branch := True\<rparr>"
      let ?b = "?a\<lparr>in_block := False, block_type := None, block_lines := [],
                   current_condition := v2\<rparr>"
      have 1: "run_lines H n (l1 # A @ ''}'' # ?rest1) k s0 = run_lines H n ?rest1 (Suc kA) ?a"
        using r1 True flag by (simp only: simp_thms if_True)
      have v: "fst (asteval H ?c2 (variables ?a)) = Inr v2"
        using c2 True flag by simp
      have 2: "run_lines H n ?rest1 (Suc kA) ?a = run_lines H n ?rest2 (Suc kB) ?b"
        using r2 [of ?a, OF _ _ v] by (simp del: run_lines.simps)
      have 3: "run_lines H n ?rest2 (Suc kB) ?b =
          Some (Done (?b\<lparr>in_block := False, block_type := None, block_lines := [],
                      executed_a_branch := False\<rparr>))"
        using r3 [of ?b] by (simp del: run_lines.simps)
      have "?b\<lparr>in_block := False, block_type := None, block_lines := [],
                      executed_a_branch := False\<rparr> =
         (run_body H (block_lines s0 @ A) kA s0)\<lparr>in_block := False, block_type := None,
                        block_lines := [], current_condition := v2, executed_a_branch := False\<rparr>"
        by simp
      with 1 2 3 True flag show ?thesis by (simp only: if_True if_False)
    next
      case False
      have 1: "run_lines H n (l1 # A @ ''}'' # ?rest1) k s0 = run_lines H n ?rest1 (Suc kA) ?skip"
        using r1 False by (simp only: simp_thms if_False)
      have v: "fst (asteval H ?c2 (variables ?skip)) = Inr v2"
        using c2 False by simp
      show ?thesis
      proof (cases "truthy H v2")
        case True
        let ?b = "(run_body H B kB ?skip)\<lparr>in_block := False, block_type := None,
                   block_lines := [], current_condition := v2, executed_a_branch := True\<rparr>"
        have 2: "run_lines H n ?rest1 (Suc kA) ?skip = run_lines H n ?rest2 (Suc kB) ?b"
          using r2 [of ?skip, OF _ _ v] True flag by (simp del: run_lines.simps)
        have 3: "run_lines H n ?rest2 (Suc kB) ?b =
            Some (Done (?b\<lparr>in_block := False, block_type := None, block_lines := [],
                        executed_a_branch := False\<rparr>))"
          using r3 [of ?b] by (simp del: run_lines.simps)
        have "?b\<lparr>in_block := False, block_type := None, block_lines := [],
                        executed_a_branch := False\<rparr> =
           (run_body H B kB s0)\<lparr>in_block := False, block_type := None, block_lines := [],
                          current_condition := v2, executed_a_branch := False\<rparr>"
          using fB by (simp add: run_body_commute)
        with 1 2 3 True flag \<open>\<not> truthy H v1\<close> show ?thesis by (simp only: if_True if_False)
      next
        case v2: False
        let ?b = "?skip\<lparr>in_block := False, block_type := None, block_lines := [],
                   current_condition := v2\<rparr>"
        let ?c = "(run_body H C kC ?b)\<lparr>in_block := False, block_type := None,
                      block_lines := [], executed_a_branch := False\<rparr>"
        have 2: "run_lines H n ?rest1 (Suc kA) ?skip = run_lines H n ?rest2 (Suc kB) ?b"
          using r2 [of ?skip, OF _ _ v] v2 by (simp del: run_lines.simps)
        have 3: "run_lines H n ?rest2 (Suc kB) ?b = Some (Done ?c)"
          using r3 [of ?b] flag by (simp del: run_lines.simps)
        have "?c = (run_body H C kC s0)\<lparr>in_block := False, block_type := None, block_lines := [],
                          current_condition := v2, executed_a_branch := False\<rparr>"
          using fC by (simp add: run_body_commute)
        with 1 2 3 v2 flag \<open>\<not> truthy H v1\<close> show ?thesis by (simp only: if_False)
      qed
    qed
  qed
qed

section \<open>Claims about the evaluator\<close>

text \<open>
  Claim C8.  For every expression text and every variable environment, evaluating the
  expression leaves the environment unchanged: whether \<open>asteval\<close> returns a value or
  raises, the dictionary it was given has the bindings it had before.
\<close>

theorem asteval_leaves_env_unchanged: "snd (asteval H expr vars) = vars"
proof (cases "ast_parse H expr")
  case (Inl e)
  then show ?thesis by (simp add: asteval_def)
next
  case (Inr tree)
  obtain r vars' where v: "visit H tree vars = (r, vars')"
    by (cases "visit H tree vars")
  then have "vars' = vars" by (rule visit_env)
  with Inr v show ?thesis by (cases r) (simp_all add: asteval_def)
qed

text \<open>
  Claim C7, as amended.  For every binary \<open>/\<close> whose operands evaluate to the integers
  \<open>a\<close> and \<open>b\<close>: with \<open>b = 0\<close> the evaluation raises \<open>ZeroDivisionError\<close> and has no
  value; otherwise its result is that of the runtime's true division of \<open>a\<close> by \<open>b\<close>,
  a float or that division's exception.  In no case is the result an integer, so no
  integer truncation takes place.
\<close>

theorem division_of_integers:
  assumes "fst (visit H l vars) = Inr (IntV a)"
    and "fst (visit H r vars) = Inr (IntV b)"
  shows "fst (visit H (BinOp l Div r) vars) =
           (if b = 0 then Inl ZeroDivisionError else map_sum id ExtV (int_truediv H a b))
         \<and> (\<forall>q. fst (visit H (BinOp l Div r) vars) \<noteq> Inr (IntV q))"
proof -
  have l: "visit H l vars = (Inr (IntV a), vars)"
    using assms(1) visit_snd [of H l vars] by (cases "visit H l vars") simp
  have r: "visit H r vars = (Inr (IntV b), vars)"
    using assms(2) visit_snd [of H r vars] by (cases "visit H r vars") simp
  have "fst (visit H (BinOp l Div r) vars) =
           (if b = 0 then Inl ZeroDivisionError else map_sum id ExtV (int_truediv H a b))"
    using l r by (simp add: py_div_def)
  then show ?thesis
    by (cases "int_truediv H a b") auto
qed

text \<open>The expression \<open>7 / 2\<close>, in the example runtime: the value is the float 7/2.\<close>

theorem division_of_integers_witness:
  "fst (visit demo_host (Constant (IntV 7)) Map.empty) = Inr (IntV 7)
   \<and> fst (visit demo_host (Constant (IntV 2)) Map.empty) = Inr (IntV 2)
   \<and> fst (visit demo_host (BinOp (Constant (IntV 7)) Div (Constant (IntV 2))) Map.empty)
       = Inr (ExtV (7 / 2))"
  using division_of_integers [of demo_host "Constant (IntV 7)" Map.empty 7 "Constant (IntV 2)" 2]
  by (simp add: demo_host_def)

text \<open>
  Claim C7 as it was stated fails for a zero divisor: \<open>1 / 0\<close> has two integer
  operands and \<open>asteval\<close> raises for it, so there is no floating-point result.
\<close>

theorem division_by_zero_counterexample:
  "fst (asteval demo_host ''1 / 0'' Map.empty) = Inl (ValueError ZeroDivisionError)
   \<and> (\<nexists>x. fst (asteval demo_host ''1 / 0'' Map.empty) = Inr (ExtV x))"
  by (simp add: demo_simps py_div_def)

section \<open>Claims about single statements\<close>

text \<open>
  Claim C6.  For every line read outside a block whose first token is \<open>if\<close>, \<open>elif\<close> or
  \<open>while\<close> and whose remainder does not end with the opening brace, \<open>interpret_line\<close>
  returns the state it was given with exactly one more record, a
  \<open>Missing opening brace '{'\<close> for this line: no block is opened (\<open>in_block\<close> is as it
  was, false), and the environment is as it was.
\<close>

theorem missing_brace_raises:
  assumes "\<not> in_block s"
    and "split_ws (strip line) = keyword # toks"
    and "keyword = ''if'' \<or> keyword = ''elif'' \<or> keyword = ''while''"
    and "\<not> endswith (strip (drop (length keyword) line)) ''{''"
  shows "interpret_line H (Suc n) line linenum s =
     Some (Done (s\<lparr>exceptioncount := exceptioncount s + 1,
                   raisedexceptions := raisedexceptions s @
                     [''Missing opening brace '' @ [CHR 0x27, CHR ''{'', CHR 0x27]
                        @ '': Line '' @ str_of_nat (linenum + 1) @ '': '' @ line]\<rparr>))"
  using assms
  by (auto simp: interp_statement statement_def stmt_if_def stmt_while_def raiseException_def
      exceptionslist_def)

text \<open>The line \<open>while x < 3\<close>, read as the fifth line of a program.\<close>

theorem missing_brace_raises_witness:
  "\<not> in_block (init_state [] :: rat state)
   \<and> split_ws (strip ''while x < 3'') = ''while'' # [''x'', ''<'', ''3'']
   \<and> \<not> endswith (strip (drop (length ''while'') ''while x < 3'')) ''{''
   \<and> interpret_line demo_host (Suc 0) ''while x < 3'' 4 (init_state []) =
       Some (Done ((init_state [])\<lparr>exceptioncount := 1,
          raisedexceptions := [''Missing opening brace '' @ [CHR 0x27, CHR ''{'', CHR 0x27]
                        @ '': Line 5: while x < 3'']\<rparr>))"
proof -
  have a: "\<not> in_block (init_state [] :: rat state)" by (simp add: init_state_def)
  have b: "split_ws (strip ''while x < 3'') = ''while'' # [''x'', ''<'', ''3'']"
    by (simp add: str_simps)
  have c: "\<not> endswith (strip (drop (length ''while'') ''while x < 3'')) ''{''"
    by (simp add: str_simps)
  have d: "str_of_nat (4 + 1) = ''5''" by (simp add: str_of_nat.simps digit_char_def)
  from missing_brace_raises [OF a b _ c, of demo_host 0 4] a b c d show ?thesis
    by (simp add: init_state_def)
qed

text \<open>
  Claim C9.  For every \<open>if\<close> or \<open>elif\<close> line read outside a block whose remainder ends
  with the opening brace and whose condition fails to evaluate, \<open>interpret_line\<close>
  records one \<open>Invalid syntax\<close> for the line and still enters the collecting state:
  \<open>in_block\<close> is true and \<open>block_type\<close> is the keyword, while \<open>current_condition\<close>
  (like every other field) keeps the value it had, so the lines up to the closing brace
  are collected and replayed under that earlier condition.
\<close>

theorem failed_condition_still_opens_block:
  assumes "\<not> in_block s"
    and "split_ws (strip line) = keyword # toks"
    and "keyword = ''if'' \<or> keyword = ''elif''"
    and "endswith (strip (drop (length keyword) line)) ''{''"
    and "fst (asteval H (strip (butlast (strip (drop (length keyword) line)))) (variables s)) = Inl e"
  shows "interpret_line H (Suc n) line linenum s =
     Some (Done (s\<lparr>in_block := True, block_type := Some keyword,
                   exceptioncount := exceptioncount s + 1,
                   raisedexceptions := raisedexceptions s @
                     [''Invalid syntax: Line '' @ str_of_nat (linenum + 1) @ '': '' @ line]\<rparr>))"
proof -
  let ?c = "strip (butlast (strip (drop (length keyword) line)))"
  have "asteval H ?c (variables s) = (Inl e, variables s)"
    using assms(5) asteval_pair [of H ?c "variables s"] by simp
  with assms(1-4) show ?thesis
    by (auto simp: interp_statement statement_def stmt_if_def raiseException_def
        exceptionslist_def)
qed

text \<open>The line \<open>if y {\<close> as the first line of a run, where \<open>y\<close> has no value.\<close>

theorem failed_condition_still_opens_block_witness:
  "\<not> in_block (init_state [] :: rat state)
   \<and> split_ws (strip ''if y {'') = ''if'' # [''y'', ''{'']
   \<and> endswith (strip (drop (length ''if'') ''if y {'')) ''{''
   \<and> fst (asteval demo_host (strip (butlast (strip (drop (length ''if'') ''if y {''))))
            (variables (init_state [] :: rat state))) = Inl (ValueError (NameError ''y''))
   \<and> interpret_line demo_host (Suc 0) ''if y {'' 0 (init_state []) =
       Some (Done ((init_state [])\<lparr>in_block := True, block_type := Some ''if'',
          exceptioncount := 1, raisedexceptions := [''Invalid syntax: Line 1: if y {'']\<rparr>))
   \<and> current_condition ((init_state [] :: rat state)\<lparr>in_block := True, block_type := Some ''if'',
          exceptioncount := 1, raisedexceptions := [''Invalid syntax: Line 1: if y {'']\<rparr>)
       = BoolV False"
proof -
  have a: "\<not> in_block (init_state [] :: rat state)" by (simp add: init_state_def)
  have b: "split_ws (strip ''if y {'') = ''if'' # [''y'', ''{'']"
    by (simp add: str_simps)
  have c: "endswith (strip (drop (length ''if'') ''if y {'')) ''{''"
    by (simp add: str_simps)
  have d: "fst (asteval demo_host (strip (butlast (strip (drop (length ''if'') ''if y {''))))
            (variables (init_state [] :: rat state))) = Inl (ValueError (NameError ''y''))"
    by (simp add: str_simps demo_simps init_state_def)
  have e: "str_of_nat (0 + 1) = ''1''" by (simp add: str_of_nat.simps digit_char_def)
  from failed_condition_still_opens_block [OF a b _ c d, of 0 0] a b c d e show ?thesis
    by (simp add: init_state_def)
qed

text \<open>
  A body that runs under the condition of an earlier block: after the chain
  \<open>if 1 {\<close>, \<open>}\<close>, \<open>else {\<close>, \<open>}\<close> the condition snapshot is 1 and the branch-taken flag
  is unset; \<open>if y {\<close> fails to evaluate and is recorded, and its body \<open>print 3\<close> runs.
\<close>

lemma stale_condition_example:
  "run_lines demo_host 4
     [''if 1 {'', ''}'', ''else {'', ''}'', ''if y {'', ''print 3'', ''}''] 0 (init_state []) =
   Some (Done ((init_state [])\<lparr>current_condition := IntV 1, executed_a_branch := True,
            exceptioncount := 1, raisedexceptions := [''Invalid syntax: Line 5: if y {''],
            stdout := ''3'' @ [CHR 0x0A]\<rparr>))"
proof -
  have four: "(4 :: nat) = Suc (Suc (Suc (Suc 0)))" by simp
  have five: "str_of_nat (Suc (Suc (Suc (Suc (Suc 0))))) = ''5''"
    by (simp add: str_of_nat_digit digit_char_def)
  show ?thesis
    unfolding four
    by (simp add: init_state_def interp_statement interp_collect interp_close_if
        interp_close_else for_lines_Suc statement_def stmt_if_def stmt_else_def stmt_print_def
        raiseException_def exceptionslist_def five
        str_simps demo_simps str_of_int_def str_of_nat_digit digit_char_def Let_def)
qed

section \<open>Claims about blocks\<close>

text \<open>
  Claim C5, evaluated where the code departs from it.  When the closing brace is read
  for a \<open>while\<close> block whose condition holds and whose body starts with \<open>break\<close>,
  \<open>interpret_line\<close> returns from inside the loop (line 111): \<open>in_block\<close> is false, but
  lines 126 and 127 are not reached, so the body buffer still holds the body and
  \<open>block_type\<close> is still \<open>while\<close>.
\<close>

theorem break_leaves_block_state:
  assumes "in_block s"
    and "block_type s = Some ''while''"
    and "block_lines s = ''break'' # rest"
    and "fst (asteval H (while_condition s) (variables s)) = Inr v"
    and "truthy H v"
  shows "interpret_line H (Suc (Suc (Suc n))) ''}'' linenum s = Some (Done (s\<lparr>in_block := False\<rparr>))
    \<and> block_lines (s\<lparr>in_block := False\<rparr>) \<noteq> []
    \<and> block_type (s\<lparr>in_block := False\<rparr>) \<noteq> None"
proof -
  have "asteval H (while_condition s) (variables s) = (Inr v, variables s)"
    using assms(4) asteval_pair [of H "while_condition s" "variables s"] by simp
  with assms(1-3,5) show ?thesis
    by (simp add: interp_close_while while_loop_Suc for_while_Suc)
qed

text \<open>The third line of the program \<open>while 1 {\<close>, \<open>break\<close>, \<open>}\<close>.\<close>

theorem break_leaves_block_state_witness:
  "interpret_line demo_host (Suc (Suc (Suc 0))) ''}'' 2
      ((init_state [])\<lparr>in_block := True, block_type := Some ''while'',
          block_lines := [''break''], while_condition := ''1''\<rparr>)
    = Some (Done ((init_state [])\<lparr>in_block := False, block_type := Some ''while'',
          block_lines := [''break''], while_condition := ''1''\<rparr>))"
  using break_leaves_block_state [of "(init_state [])\<lparr>in_block := True, block_type := Some ''while'',
          block_lines := [''break''], while_condition := ''1''\<rparr>" "[]" demo_host "IntV 1" 0 2]
  by (simp add: init_state_def demo_simps)

text \<open>
  Claim C4.  When the closing brace is read for a \<open>while\<close> block whose condition holds
  and whose body has a line \<open>break\<close>, the call returns the state reached by replaying
  the lines before the first \<open>break\<close> once: no later line of the body has run, the
  condition is not evaluated again and there is no second pass, whatever the
  condition's value in that state.
\<close>

theorem break_ends_while:
  assumes "in_block s"
    and "block_type s = Some ''while''"
    and "block_lines s = pre @ ''break'' # post"
    and "''break'' \<notin> set pre"
    and "''}'' \<notin> set pre"
    and "fst (asteval H (while_condition s) (variables s)) = Inr v"
    and "truthy H v"
    and "length pre + 3 \<le> n"
  shows "interpret_line H n ''}'' k s =
         Some (Done (foldl (replay_step H k) (s\<lparr>in_block := False\<rparr>) pre))"
proof -
  let ?s1 = "s\<lparr>in_block := False\<rparr>"
  let ?r = "foldl (replay_step H k) ?s1 pre"
  have "for_while H (Suc (length pre - 0 + 0)) k 0 ?s1 =
      Some (Break (foldl (replay_step H k) ?s1 (drop 0 pre)))"
    using assms(3,4,5) by (intro for_while_reaches_break [where post = post]) simp_all
  then have body: "for_while H (Suc (length pre)) k 0 ?s1 = Some (Break ?r)"
    by simp
  have loop: "while_loop H (Suc (Suc (length pre))) k ?s1 = Some (Break ?r)"
    using assms(6,7) body by (subst while_loop_Suc) simp
  have "interpret_line H (Suc (Suc (Suc (length pre)))) ''}'' k s = Some (Done ?r)"
    using assms(1,2) loop by (simp add: interp_close_while)
  moreover have "Suc (Suc (Suc (length pre))) \<le> n"
    using assms(8) by simp
  ultimately show ?thesis
    by (rule interpret_line_mono [rotated])
qed

text \<open>
  The closing brace of \<open>while 1 {\<close>, \<open>print 1\<close>, \<open>break\<close>, \<open>print 2\<close>, \<open>}\<close>: one line is
  written, and the condition still holds in the state the call returns.
\<close>

theorem break_ends_while_witness:
  "fst (asteval demo_host ''1'' Map.empty) = Inr (IntV 1)
   \<and> truthy demo_host (IntV 1)
   \<and> interpret_line demo_host 4 ''}'' 4
        ((init_state [])\<lparr>in_block := True, block_type := Some ''while'',
           block_lines := [''print 1'', ''break'', ''print 2''], while_condition := ''1''\<rparr>) =
      Some (Done ((init_state [])\<lparr>block_type := Some ''while'',
           block_lines := [''print 1'', ''break'', ''print 2''], while_condition := ''1'',
           stdout := ''1'' @ [CHR 0x0A]\<rparr>))
   \<and> fst (asteval demo_host ''1'' (variables ((init_state [] :: rat state)\<lparr>block_type := Some ''while'',
           block_lines := [''print 1'', ''break'', ''print 2''], while_condition := ''1'',
           stdout := ''1'' @ [CHR 0x0A]\<rparr>))) = Inr (IntV 1)"
proof -
  let ?s = "(init_state [] :: rat state)\<lparr>in_block := True, block_type := Some ''while'',
           block_lines := [''print 1'', ''break'', ''print 2''], while_condition := ''1''\<rparr>"
  have a: "fst (asteval demo_host ''1'' Map.empty) = Inr (IntV 1)"
    by (simp add: demo_simps)
  have b: "''break'' \<notin> set [''print 1'']" "''}'' \<notin> set [''print 1'']"
    by simp_all
  have c: "block_lines ?s = [''print 1''] @ ''break'' # [''print 2'']"
    by simp
  have d: "fst (asteval demo_host (while_condition ?s) (variables ?s)) = Inr (IntV 1)"
    using a by (simp add: init_state_def)
  have e: "foldl (replay_step demo_host 4) (?s\<lparr>in_block := False\<rparr>) [''print 1''] =
      (init_state [])\<lparr>block_type := Some ''while'',
           block_lines := [''print 1'', ''break'', ''print 2''], while_condition := ''1'',
           stdout := ''1'' @ [CHR 0x0A]\<rparr>"
    by (simp add: replay_step_def statement_def stmt_print_def str_simps demo_simps
        init_state_def str_of_int_def str_of_nat_digit digit_char_def Let_def)
  from break_ends_while [where s = ?s and pre = "[''print 1'']" and post = "[''print 2'']"
      and H = demo_host and v = "IntV 1" and n = 4 and k = 4, OF _ _ c b d] a e
  show ?thesis
    by (simp add: init_state_def)
qed

text \<open>
  Claim C2, as amended.  Take a program whose stripped lines are an
  \<open>if\<close>/\<open>elif\<close>/\<open>else\<close> chain, run at top level from any state in which no block is
  open, whose two conditions evaluate and whose bodies \<open>A\<close>, \<open>B\<close>, \<open>C\<close> are statements
  that open no block.  Then the run returns, and

  \<^item> if the branch-taken flag is set at the start, no body runs: the final state is the
    starting state;

  \<^item> if the flag is unset, exactly one body runs, the one that the captured conditions
    select: \<open>A\<close> if the first condition holds (whatever the second is), else \<open>B\<close> if the
    second holds, else \<open>C\<close>.  The final state is the state after that body alone, run
    with the line number of its closing brace.  An opening line does not empty the body
    buffer, so the lines that the buffer holds at the start (it holds some after a
    \<open>while\<close> that ended with \<open>break\<close>) are replayed in front of \<open>A\<close> when \<open>A\<close> runs;
    they are required then to open no block.  They are dropped when \<open>A\<close> does not run.

  In both cases the block state is cleared, the second condition's value is the captured
  one, and the flag is reset by the closing \<open>else\<close>.
\<close>

theorem if_elif_else_chain:
  assumes shape: "map strip program = l1 # A @ ''}'' # l2 # B @ ''}'' # l3 # C @ [''}'']"
    and s0: "\<not> in_block s0"
    and stale: "truthy H v1 \<and> \<not> executed_a_branch s0 \<longrightarrow>
         (\<forall>a \<in> set (block_lines s0). \<not> opens_block a)"
    and l1: "split_ws l1 = ''if'' # t1" "endswith (strip (drop (length ''if'') l1)) ''{''"
    and l2: "split_ws l2 = ''elif'' # t2" "endswith (strip (drop (length ''elif'') l2)) ''{''"
    and l3: "split_ws l3 = ''else'' # t3" "strip (drop (length ''else'') l3) = ''{''"
    and bodies: "\<forall>a \<in> set (A @ B @ C). a \<noteq> ''}'' \<and> \<not> opens_block a"
    and k: "kA = k + length A + 1" "kB = kA + length B + 2" "kC = kB + length C + 2"
    and c1: "fst (asteval H (strip (butlast (strip (drop (length ''if'') l1)))) (variables s0))
              = Inr v1"
    and c2: "fst (asteval H (strip (butlast (strip (drop (length ''elif'') l2))))
                (variables (if truthy H v1 \<and> \<not> executed_a_branch s0
                            then run_body H (block_lines s0 @ A) kA s0 else s0))) = Inr v2"
    and fuel: "length (block_lines s0) + length A + length B + length C + 2 \<le> n"
  shows "run_lines H n program k s0 =
         Some (Done ((if executed_a_branch s0 then s0
                      else if truthy H v1 then run_body H (block_lines s0 @ A) kA s0
                      else if truthy H v2 then run_body H B kB s0
                      else run_body H C kC s0)
                     \<lparr>in_block := False, block_type := None, block_lines := [],
                      current_condition := v2, executed_a_branch := False\<rparr>))"
proof -
  let ?lines = "l1 # A @ ''}'' # l2 # B @ ''}'' # l3 # C @ [''}'']"
  have stripped: "strip x = x" if "x \<in> set ?lines" for x
  proof -
    from that shape have "x \<in> set (map strip program)" by simp
    then obtain y where "x = strip y" by auto
    then show ?thesis by (simp add: strip_idem)
  qed
  have s1: "strip l1 = l1" and s2: "strip l2 = l2" and s3: "strip l3 = l3"
    by (simp_all add: stripped)
  have b: "\<forall>a \<in> set (A @ B @ C). strip a = a \<and> a \<noteq> ''}'' \<and> \<not> opens_block a"
    using bodies stripped by auto
  have "run_lines H n program k s0 = run_lines H n ?lines k s0"
    using run_lines_strip [of H n program k s0] shape by simp
  also have "\<dots> =
         Some (Done ((if executed_a_branch s0 then s0
                      else if truthy H v1 then run_body H (block_lines s0 @ A) kA s0
                      else if truthy H v2 then run_body H B kB s0
                      else run_body H C kC s0)
                     \<lparr>in_block := False, block_type := None, block_lines := [],
                      current_condition := v2, executed_a_branch := False\<rparr>))"
    using s0 stale s1 _ l1(2) s2 _ l2(2) s3 _ l3(2) b k c1 c2 fuel
  proof (rule chain_of_stripped_lines)
    show "split_ws (strip l1) = ''if'' # t1" using l1(1) s1 by simp
    show "split_ws (strip l2) = ''elif'' # t2" using l2(1) s2 by simp
    show "split_ws (strip l3) = ''else'' # t3" using l3(1) s3 by simp
  qed
  finally show ?thesis .
qed

text \<open>
  The chain \<open>if 1 {\<close>, \<open>print 1\<close>, \<open>}\<close>, \<open>elif 1 {\<close>, \<open>print 2\<close>, \<open>}\<close>, \<open>else {\<close>,
  \<open>print 3\<close>, \<open>}\<close>, its bodies indented, as lines 4 to 12 of a program that starts with
  \<open>while 1 {\<close>, \<open>break\<close>, \<open>}\<close>: the flag is unset and the buffer holds the \<open>break\<close> of
  the loop.  The first body runs behind that line, which is no command outside a loop:
  one exception is recorded, and only \<open>1\<close> is written.
\<close>

theorem if_elif_else_chain_witness:
  "run_lines demo_host 6
     [''if 1 {'', ''    print 1'', ''}'', ''elif 1 {'', ''    print 2'', ''}'',
      ''else {'', ''    print 3'', ''}'']
     3 ((init_state [])\<lparr>block_type := Some ''while'', block_lines := [''break''],
          while_condition := ''1''\<rparr>) =
   Some (Done ((init_state [])\<lparr>current_condition := IntV 1, while_condition := ''1'',
     exceptioncount := 1, raisedexceptions := [''Unknown command: Line 6: break''],
     stdout := ''1'' @ [CHR 0x0A]\<rparr>))"
proof -
  let ?s0 = "(init_state [])\<lparr>block_type := Some ''while'', block_lines := [''break''],
          while_condition := ''1''\<rparr> :: rat state"
  have shape: "map strip [''if 1 {'', ''    print 1'', ''}'', ''elif 1 {'', ''    print 2'', ''}'',
      ''else {'', ''    print 3'', ''}''] =
      ''if 1 {'' # [''print 1''] @ ''}'' # ''elif 1 {'' # [''print 2''] @ ''}'' #
      ''else {'' # [''print 3''] @ [''}'']"
    by (simp add: str_simps)
  have s0: "\<not> in_block ?s0"
    by (simp add: init_state_def)
  have stale: "truthy demo_host (IntV 1) \<and> \<not> executed_a_branch ?s0 \<longrightarrow>
      (\<forall>a \<in> set (block_lines ?s0). \<not> opens_block a)"
    by (simp add: str_simps opens_block_def)
  have l1: "split_ws ''if 1 {'' = ''if'' # [''1'', ''{'']"
    "endswith (strip (drop (length ''if'') ''if 1 {'')) ''{''"
    by (simp_all add: str_simps)
  have l2: "split_ws ''elif 1 {'' = ''elif'' # [''1'', ''{'']"
    "endswith (strip (drop (length ''elif'') ''elif 1 {'')) ''{''"
    by (simp_all add: str_simps)
  have l3: "split_ws ''else {'' = ''else'' # [''{'']"
    "strip (drop (length ''else'') ''else {'') = ''{''"
    by (simp_all add: str_simps)
  have bodies: "\<forall>a \<in> set ([''print 1''] @ [''print 2''] @ [''print 3'']).
      a \<noteq> ''}'' \<and> \<not> opens_block a"
    by (simp add: str_simps opens_block_def)
  have k: "5 = 3 + length [''print 1''] + 1" "8 = 5 + length [''print 2''] + 2"
    "11 = 8 + length [''print 3''] + 2"
    by simp_all
  have c1: "fst (asteval demo_host (strip (butlast (strip (drop (length ''if'') ''if 1 {''))))
      (variables ?s0)) = Inr (IntV 1)"
    by (simp add: str_simps demo_simps init_state_def)
  have b: "run_body demo_host (block_lines ?s0 @ [''print 1'']) 5 ?s0 =
      ?s0\<lparr>exceptioncount := 1, raisedexceptions := [''Unknown command: Line 6: break''],
        stdout := ''1'' @ [CHR 0x0A]\<rparr>"
    by (simp add: statement_def stmt_print_def raiseException_def exceptionslist_def
        str_simps demo_simps init_state_def str_of_int_def str_of_nat_digit digit_char_def Let_def)
  have c2: "fst (asteval demo_host (strip (butlast (strip (drop (length ''elif'') ''elif 1 {''))))
      (variables (if truthy demo_host (IntV 1) \<and> \<not> executed_a_branch ?s0
                  then run_body demo_host (block_lines ?s0 @ [''print 1'']) 5 ?s0
                  else ?s0))) = Inr (IntV 1)"
    unfolding b by (simp add: str_simps demo_simps init_state_def)
  have fuel: "length (block_lines ?s0) + length [''print 1''] + length [''print 2'']
      + length [''print 3''] + 2 \<le> (6 :: nat)"
    by simp
  from if_elif_else_chain [OF shape s0 stale l1 l2 l3 bodies k c1 c2 fuel] b
  show ?thesis
    by (simp add: init_state_def)
qed

text \<open>
  Claim C2 as it was stated fails for a chain that follows an \<open>if\<close> block without
  \<open>else\<close> whose body ran: that block leaves the branch-taken flag set, and nothing
  but a closing \<open>else\<close> resets it.  In the program below the chain
  \<open>if 1 { print 1 } elif 1 { print 2 } else { print 3 }\<close> has a true first condition,
  and none of its three bodies runs: the output is the \<open>0\<close> of the block before it.
\<close>

theorem chain_after_if_counterexample:
  "run_lines demo_host 4
     [''if 1 {'', ''print 0'', ''}'',
      ''if 1 {'', ''print 1'', ''}'', ''elif 1 {'', ''print 2'', ''}'', ''else {'', ''print 3'', ''}'']
     0 (init_state []) =
   Some (Done ((init_state [])\<lparr>current_condition := IntV 1, stdout := ''0'' @ [CHR 0x0A]\<rparr>))"
proof -
  have four: "(4 :: nat) = Suc (Suc (Suc (Suc 0)))" by simp
  show ?thesis
    unfolding four
    by (simp add: init_state_def interp_statement interp_collect interp_close_if
        interp_close_else for_lines_Suc statement_def stmt_if_def stmt_else_def stmt_print_def
        str_simps demo_simps str_of_int_def str_of_nat_digit digit_char_def Let_def)
qed

text \<open>
  A buffer that is not empty while no block is open is what a \<open>while\<close> that ended with
  \<open>break\<close> leaves.  In the program below the \<open>if\<close> block is collected behind the
  \<open>break\<close> of the loop, so its replay records that line as an unknown command with
  the number of the closing brace, line 6, and then writes \<open>1\<close>.
\<close>

lemma chain_after_break_example:
  "run_lines demo_host 4
     [''while 1 {'', ''break'', ''}'', ''if 1 {'', ''print 1'', ''}'']
     0 (init_state []) =
   Some (Done ((init_state [])\<lparr>current_condition := IntV 1, executed_a_branch := True,
     while_condition := ''1'', exceptioncount := 1,
     raisedexceptions := [''Unknown command: Line 6: break''],
     stdout := ''1'' @ [CHR 0x0A]\<rparr>))"
proof -
  have four: "(4 :: nat) = Suc (Suc (Suc (Suc 0)))" by simp
  show ?thesis
    unfolding four
    by (simp add: init_state_def interp_statement interp_collect interp_close_if
        interp_close_while while_loop_Suc for_while_Suc
        for_lines_Suc statement_def stmt_if_def stmt_while_def stmt_print_def
        raiseException_def exceptionslist_def
        str_simps demo_simps str_of_int_def str_of_nat_digit digit_char_def Let_def)
qed

section \<open>Claims about whole runs\<close>

text \<open>
  Claim C1, evaluated where the code departs from it.  The program \<open>while y {\<close>, \<open>}\<close>
  names a variable that has no value in the condition of its loop.  The condition is
  evaluated when the closing brace is read, by a call of \<open>asteval\<close> that no handler
  surrounds: the \<open>ValueError\<close> leaves \<open>interpret_line\<close> and \<open>run_minipy\<close>, no exception
  record is written and the run does not reach its report.
\<close>

theorem while_condition_failure_escapes:
  assumes "ast_parse H ''y'' = Inr (Name ''y'')"
  shows "run_minipy H (Suc (Suc n)) (''while y {'' @ [CHR 0x0A] @ ''}'') inp =
     Some (Raised (ValueError (NameError ''y''))
        ((init_state inp)\<lparr>block_type := Some ''while'', while_condition := ''y''\<rparr>))"
  using assms
  by (simp add: run_minipy_def splitlines_def is_linebreak_def str_simps init_state_def
      statement_def stmt_while_def asteval_def interp_statement interp_close_while
      while_loop_Suc)

theorem while_condition_failure_escapes_witness:
  "ast_parse demo_host ''y'' = Inr (Name ''y'')
   \<and> run_minipy demo_host (Suc (Suc 0)) (''while y {'' @ [CHR 0x0A] @ ''}'') [] =
     Some (Raised (ValueError (NameError ''y''))
        ((init_state [])\<lparr>block_type := Some ''while'', while_condition := ''y''\<rparr>))"
proof -
  have a: "ast_parse demo_host ''y'' = Inr (Name ''y'')"
    by (simp add: demo_simps)
  from while_condition_failure_escapes [OF a, of 0 "[]"] a show ?thesis
    by simp
qed

text \<open>
  Claim C10.  The exception count equals the number of entries of the exception log
  throughout a run: both are zero in the state a run starts from; \<open>raiseException\<close>
  adds one to the count and appends one record; every call of \<open>interpret_line\<close>,
  however it ends, leaves the records it found in place and raises the count by the
  number of records it added; so the two agree after any number of lines of a run, and
  the return code that \<open>run_minipy\<close> reports in its last line is the number of
  records.
\<close>

theorem exception_count_matches_log:
  "exceptioncount (init_state inp :: 'x state) = 0
   \<and> raisedexceptions (init_state inp :: 'x state) = []
   \<and> exceptioncount (raiseException type line k (s :: 'x state)) = exceptioncount s + 1
   \<and> raisedexceptions (raiseException type line k s) =
       raisedexceptions s @ [type @ '': Line '' @ str_of_nat (k + 1) @ '': '' @ line]
   \<and> (interpret_line H n line k s = Some r \<longrightarrow> log_grows s (final r))
   \<and> (run_lines H n lines 0 (init_state inp) = Some r' \<longrightarrow>
        exceptioncount (final r') = length (raisedexceptions (final r')))
   \<and> (run_minipy H n code inp = Some (Done s') \<longrightarrow>
        exceptioncount s' = length (raisedexceptions s')
        \<and> (\<exists>out. stdout s' = out @ [CHR 0x0A]
              @ (if exceptioncount s' = 0 then GREEN H else RED H)
              @ ''Exited with return code: '' @ str_of_nat (exceptioncount s')
              @ RESET H @ [CHR 0x0A]))"
proof -
  have run: "exceptioncount (final q) = length (raisedexceptions (final q))"
    if "run_lines H n ls 0 (init_state inp) = Some q" for ls q
  proof -
    from that have "log_grows (init_state inp) (final q)" by (rule log_grows_run_lines)
    then show ?thesis by (simp add: log_grows_def init_state_def)
  qed
  have mini: "exceptioncount s' = length (raisedexceptions s')
        \<and> (\<exists>out. stdout s' = out @ [CHR 0x0A]
              @ (if exceptioncount s' = 0 then GREEN H else RED H)
              @ ''Exited with return code: '' @ str_of_nat (exceptioncount s')
              @ RESET H @ [CHR 0x0A])"
    if m: "run_minipy H n code inp = Some (Done s')"
  proof -
    from m obtain s0 where s0: "run_lines H n (splitlines code) 0 (init_state inp) = Some (Done s0)"
      and s': "s' = report H s0"
      by (auto simp: run_minipy_def split: option.splits outcome.splits)
    from run [OF s0] have c: "exceptioncount s0 = length (raisedexceptions s0)" by simp
    then have "exceptioncount s' = length (raisedexceptions s')" using s' by simp
    moreover have "\<exists>out. stdout s' = out @ [CHR 0x0A]
              @ (if exceptioncount s' = 0 then GREEN H else RED H)
              @ ''Exited with return code: '' @ str_of_nat (exceptioncount s')
              @ RESET H @ [CHR 0x0A]"
      unfolding s' report_log by (rule stdout_report)
    ultimately show ?thesis by (rule conjI)
  qed
  have il: "log_grows s (final r)" if "interpret_line H n line k s = Some r"
    using that log_grows_loops [of H n] by blast
  have start: "exceptioncount (init_state inp :: 'x state) = 0
     \<and> raisedexceptions (init_state inp :: 'x state) = []"
    by (simp add: init_state_def)
  have raise: "exceptioncount (raiseException type line k s) = exceptioncount s + 1
   \<and> raisedexceptions (raiseException type line k s) =
       raisedexceptions s @ [type @ '': Line '' @ str_of_nat (k + 1) @ '': '' @ line]"
    by (simp add: raiseException_def)
  from start raise il run [of lines r'] mini show ?thesis
    by blast
qed

text \<open>
  The run of the two-line program \<open>foo\<close>, \<open>print y\<close>: two records, and the count is 2.
\<close>

theorem exception_count_matches_log_witness:
  "run_minipy demo_host (Suc (Suc 0)) (''foo'' @ [CHR 0x0A] @ ''print y'') [] =
     Some (Done (report demo_host ((init_state [])\<lparr>exceptioncount := 2,
        raisedexceptions := [''Unknown command: Line 1: foo'', ''Invalid syntax: Line 2: print y'']\<rparr>)))
   \<and> exceptioncount (report demo_host ((init_state [] :: rat state)\<lparr>exceptioncount := 2,
        raisedexceptions := [''Unknown command: Line 1: foo'', ''Invalid syntax: Line 2: print y'']\<rparr>))
      = length (raisedexceptions (report demo_host ((init_state [] :: rat state)\<lparr>exceptioncount := 2,
        raisedexceptions := [''Unknown command: Line 1: foo'', ''Invalid syntax: Line 2: print y'']\<rparr>)))"
proof -
  have n1: "str_of_nat (Suc 0) = ''1''" "str_of_nat (Suc (Suc 0)) = ''2''"
    by (simp_all add: str_of_nat_digit digit_char_def)
  have a: "run_minipy demo_host (Suc (Suc 0)) (''foo'' @ [CHR 0x0A] @ ''print y'') [] =
     Some (Done (report demo_host ((init_state [])\<lparr>exceptioncount := 2,
        raisedexceptions := [''Unknown command: Line 1: foo'', ''Invalid syntax: Line 2: print y'']\<rparr>)))"
    by (simp add: run_minipy_def splitlines_def is_linebreak_def str_simps init_state_def
        interp_statement statement_def stmt_print_def demo_simps raiseException_def
        exceptionslist_def n1 numeral_2_eq_2)
  from exception_count_matches_log [where H = demo_host and n = "Suc (Suc 0)"
      and code = "''foo'' @ [CHR 0x0A] @ ''print y''" and inp = "[]"] a
  show ?thesis by simp
qed

text \<open>
  Claim C3.  Run from an environment in which \<open>x\<close> is 0, the program whose lines are
  \<open>while x < 3 {\<close>, \<open>print x\<close>, \<open>let x = x + 1\<close>, \<open>}\<close> returns, has written exactly
  the lines \<open>0\<close>, \<open>1\<close>, \<open>2\<close> in this order, has recorded no exception, and leaves \<open>x\<close> at
  3 and every other variable as it was.
\<close>

theorem while_counts_to_three:
  assumes "ast_parse H ''x < 3'' = Inr (Compare (Name ''x'') [Lt] [Constant (IntV 3)])"
    and "ast_parse H ''x'' = Inr (Name ''x'')"
    and "ast_parse H ''x + 1'' = Inr (BinOp (Name ''x'') Add (Constant (IntV 1)))"
    and "vars ''x'' = Some (IntV 0)"
    and "7 \<le> n"
  shows "run_lines H n [''while x < 3 {'', ''print x'', ''let x = x + 1'', ''}''] 0
           ((init_state inp)\<lparr>variables := vars\<rparr>) =
         Some (Done ((init_state inp)\<lparr>variables := vars(''x'' \<mapsto> IntV 3),
                 while_condition := ''x < 3'',
                 stdout := ''0'' @ [CHR 0x0A] @ ''1'' @ [CHR 0x0A] @ ''2'' @ [CHR 0x0A]\<rparr>))"
proof -
  let ?n = "Suc (Suc (Suc (Suc (Suc (Suc (Suc 0))))))"
  let ?s0 = "(init_state inp)\<lparr>variables := vars\<rparr>"
  let ?s1 = "?s0\<lparr>in_block := True, block_type := Some ''while'', while_condition := ''x < 3''\<rparr>"
  let ?s2 = "?s1\<lparr>block_lines := [''print x'']\<rparr>"
  let ?s3 = "?s1\<lparr>block_lines := [''print x'', ''let x = x + 1'']\<rparr>"
  let ?w0 = "?s3\<lparr>in_block := False\<rparr>"
  let ?w1 = "?w0\<lparr>variables := vars(''x'' \<mapsto> IntV 1), stdout := ''0'' @ [CHR 0x0A]\<rparr>"
  let ?w2 = "?w0\<lparr>variables := vars(''x'' \<mapsto> IntV 2),
                  stdout := ''0'' @ [CHR 0x0A] @ ''1'' @ [CHR 0x0A]\<rparr>"
  let ?w3 = "?w0\<lparr>variables := vars(''x'' \<mapsto> IntV 3),
                  stdout := ''0'' @ [CHR 0x0A] @ ''1'' @ [CHR 0x0A] @ ''2'' @ [CHR 0x0A]\<rparr>"
  have d: "str_of_int 0 = ''0''" "str_of_int 1 = ''1''" "str_of_int 2 = ''2''"
    by (simp_all add: str_of_int_def str_of_nat_digit digit_char_def)
  have l1: "interpret_line H ?n (strip ''while x < 3 {'') 0 ?s0 = Some (Done ?s1)"
    by (simp add: str_simps open_count_loop init_state_def)
  have l2: "interpret_line H ?n (strip ''print x'') (Suc 0) ?s1 = Some (Done ?s2)"
    by (simp add: str_simps interp_collect init_state_def)
  have l3: "interpret_line H ?n (strip ''let x = x + 1'') (Suc (Suc 0)) ?s2 = Some (Done ?s3)"
    by (simp add: str_simps interp_collect init_state_def)
  have i0: "while_loop H (Suc (Suc (Suc (Suc (Suc (Suc 0)))))) 3 ?w0 =
            while_loop H (Suc (Suc (Suc (Suc (Suc 0))))) 3 ?w1"
    using count_iter [OF assms(1-3), of ?w0 0 "Suc (Suc 0)" 3] assms(4)
    by (simp add: init_state_def d)
  have i1: "while_loop H (Suc (Suc (Suc (Suc (Suc 0))))) 3 ?w1 =
            while_loop H (Suc (Suc (Suc (Suc 0)))) 3 ?w2"
    using count_iter [OF assms(1-3), of ?w1 1 "Suc 0" 3]
    by (simp add: init_state_def d)
  have i2: "while_loop H (Suc (Suc (Suc (Suc 0)))) 3 ?w2 =
            while_loop H (Suc (Suc (Suc 0))) 3 ?w3"
    using count_iter [OF assms(1-3), of ?w2 2 "0" 3]
    by (simp add: init_state_def d)
  have i3: "while_loop H (Suc (Suc (Suc 0))) 3 ?w3 = Some (Done ?w3)"
    using count_exit [OF assms(1), of ?w3 "Suc (Suc 0)" 3]
    by (simp add: init_state_def)
  have l4: "interpret_line H ?n (strip ''}'') (Suc (Suc (Suc 0))) ?s3 =
      Some (Done (?w3\<lparr>block_lines := [], block_type := None\<rparr>))"
    using i0 i1 i2 i3
    by (simp add: str_simps interp_close_while init_state_def numeral_3_eq_3)
  have r: "run_lines H ?n [''while x < 3 {'', ''print x'', ''let x = x + 1'', ''}''] 0 ?s0 =
      Some (Done ((init_state inp)\<lparr>variables := vars(''x'' \<mapsto> IntV 3),
                 while_condition := ''x < 3'',
                 stdout := ''0'' @ [CHR 0x0A] @ ''1'' @ [CHR 0x0A] @ ''2'' @ [CHR 0x0A]\<rparr>))"
    using l1 l2 l3 l4 by (simp add: init_state_def)
  have le: "?n \<le> n"
    using assms(5) by simp
  show ?thesis
    by (rule run_lines_mono [OF le r])
qed

text \<open>The same run in the example runtime, from the environment that has \<open>x\<close> only.\<close>

theorem while_counts_to_three_witness:
  "ast_parse demo_host ''x < 3'' = Inr (Compare (Name ''x'') [Lt] [Constant (IntV 3)])
   \<and> ast_parse demo_host ''x'' = Inr (Name ''x'')
   \<and> ast_parse demo_host ''x + 1'' = Inr (BinOp (Name ''x'') Add (Constant (IntV 1)))
   \<and> [''x'' \<mapsto> IntV 0] ''x'' = Some (IntV (0 :: int) :: rat val)
   \<and> run_lines demo_host 7 [''while x < 3 {'', ''print x'', ''let x = x + 1'', ''}''] 0
           ((init_state [])\<lparr>variables := [''x'' \<mapsto> IntV 0]\<rparr>) =
         Some (Done ((init_state [])\<lparr>variables := [''x'' \<mapsto> IntV 3],
                 while_condition := ''x < 3'',
                 stdout := ''0'' @ [CHR 0x0A] @ ''1'' @ [CHR 0x0A] @ ''2'' @ [CHR 0x0A]\<rparr>))"
proof -
  have a: "ast_parse demo_host ''x < 3'' = Inr (Compare (Name ''x'') [Lt] [Constant (IntV 3)])"
    by (simp add: demo_simps)
  have b: "ast_parse demo_host ''x'' = Inr (Name ''x'')"
    by (simp add: demo_simps)
  have c: "ast_parse demo_host ''x + 1'' = Inr (BinOp (Name ''x'') Add (Constant (IntV 1)))"
    by (simp add: demo_simps)
  have d: "[''x'' \<mapsto> IntV 0] ''x'' = Some (IntV (0 :: int) :: rat val)"
    by simp
  from while_counts_to_three [where H = demo_host and vars = "[''x'' \<mapsto> IntV 0]"
      and n = 7 and inp = "[]", OF a b c d] a b c
  show ?thesis
    by simp
qed

end
